theory Spec2Isabelle
  imports Main
begin

section \<open>JavaScript values, objects and strings\<close>

text \<open>
  The library exists in two builds that share their method bodies line for line: the
  standalone class (\<^verbatim>\<open>javascripts/database-standalone.js\<close>, version 2.0.0) and the
  Enyo component (version 2.1.0). They differ in the helpers they call: the standalone
  build has its own \<^verbatim>\<open>_isArray\<close>, \<^verbatim>\<open>_bind\<close> and \<^verbatim>\<open>_mixin\<close>, the Enyo build uses
  \<^verbatim>\<open>enyo.isArray\<close>, \<^verbatim>\<open>enyo.bind\<close> and \<^verbatim>\<open>enyo.mixin\<close>. Every definition that depends
  on the build takes it as its first argument. (The older build on Prototype and Mojo,
  version 1.0.0, is not modelled.)
\<close>

datatype variant = Standalone | Enyo

text \<open>
  Scalars bound to a placeholder or stored as a version: \<^verbatim>\<open>undefined\<close>, \<^verbatim>\<open>null\<close>,
  numbers (integers here) and strings.
\<close>

datatype jsval = Undefined | Null | Num int | Str string

text \<open>
  A plain object is the list of its own enumerable properties in the order in which
  \<^verbatim>\<open>for (var key in obj)\<close> visits them. \<open>keys\<close> is that enumeration, \<open>property\<close>
  is the read \<^verbatim>\<open>obj[key]\<close>, which yields \<^verbatim>\<open>undefined\<close> for a name the object lacks.
\<close>

type_synonym object = "(string \<times> jsval) list"

definition keys :: "object \<Rightarrow> string list" where
  "keys obj = map fst obj"

definition property :: "object \<Rightarrow> string \<Rightarrow> jsval" where
  "property obj key = (case map_of obj key of None \<Rightarrow> Undefined | Some v \<Rightarrow> v)"

text \<open>\<^verbatim>\<open>Array.prototype.join\<close> on an array of strings.\<close>

fun join :: "string list \<Rightarrow> string \<Rightarrow> string" where
  "join [] sep = []"
| "join [x] sep = x"
| "join (x # y # ys) sep = x @ sep @ join (y # ys) sep"

text \<open>
  \<^verbatim>\<open>String.prototype.substr(start, length)\<close> for a start inside the string; a length
  of zero or less gives the empty string.
\<close>

definition substr :: "string \<Rightarrow> nat \<Rightarrow> int \<Rightarrow> string" where
  "substr s start len = (if len \<le> 0 then [] else take (nat len) (drop start s))"

text \<open>Errors a call can raise.\<close>

datatype error =
    ReferenceError string
  | TypeError string
  | Error string

section \<open>Statement builders\<close>

text \<open>
  \<^verbatim>\<open>DatabaseQuery\<close>: the constructor reads \<^verbatim>\<open>inProps.sql\<close> and \<^verbatim>\<open>inProps.values\<close>
  and replaces an undefined one by \<^verbatim>\<open>''\<close> and \<^verbatim>\<open>[]\<close>. The field \<open>values'\<close> is the
  source's \<^verbatim>\<open>values\<close>.
\<close>

record DatabaseQuery =
  sql :: string
  values' :: "jsval list"

definition new_DatabaseQuery :: "string option \<Rightarrow> jsval list option \<Rightarrow> DatabaseQuery" where
  "new_DatabaseQuery inSql inValues =
     \<lparr>sql = (case inSql of Some s \<Rightarrow> s | None \<Rightarrow> []),
      values' = (case inValues of Some vs \<Rightarrow> vs | None \<Rightarrow> [])\<rparr>"

text \<open>
  \<^verbatim>\<open>getInsert\<close>. The loop state is \<open>(sql', valueString, colValues)\<close>; each key appends
  itself and \<^verbatim>\<open>', '\<close> to \<open>sql'\<close>, \<^verbatim>\<open>'?'\<close> and \<^verbatim>\<open>', '\<close> to \<open>valueString\<close>, and pushes
  \<^verbatim>\<open>data[key]\<close>. After the loop two characters are cut from the end of both strings,
  whatever they are.
\<close>

fun getInsert_loop ::
  "object \<Rightarrow> string list \<Rightarrow> string \<times> string \<times> jsval list \<Rightarrow> string \<times> string \<times> jsval list"
where
  "getInsert_loop data [] st = st"
| "getInsert_loop data (key # rest) (sql', valueString, colValues) =
     getInsert_loop data rest
       (sql' @ key @ '', '', valueString @ ''?'' @ '', '', colValues @ [property data key])"

definition getInsert :: "string \<Rightarrow> object \<Rightarrow> DatabaseQuery" where
  "getInsert tableName data =
     (case getInsert_loop data (keys data)
             (''INSERT INTO '' @ tableName @ '' ('', '' VALUES ('', []) of
        (sql0, valueString0, colValues) \<Rightarrow>
          let sql1 = substr sql0 0 (int (length sql0) - 2) @ '')'';
              valueString1 = substr valueString0 0 (int (length valueString0) - 2) @ '')''
          in new_DatabaseQuery (Some (sql1 @ valueString1)) (Some colValues))"

text \<open>
  The loop shared by the WHERE and SET clauses:
  \<^verbatim>\<open>for (var key in obj) { strings.push(key + ' = ?'); sqlValues.push(obj[key]); }\<close>
\<close>

fun clause_loop ::
  "object \<Rightarrow> string list \<Rightarrow> string list \<times> jsval list \<Rightarrow> string list \<times> jsval list"
where
  "clause_loop obj [] st = st"
| "clause_loop obj (key # rest) (strings, sqlValues) =
     clause_loop obj rest (strings @ [key @ '' = ?''], sqlValues @ [property obj key])"

definition getUpdate :: "string \<Rightarrow> object \<Rightarrow> object \<Rightarrow> DatabaseQuery" where
  "getUpdate tableName data where' =
     (case clause_loop data (keys data) ([], []) of
        (sqlStrings, sqlValues0) \<Rightarrow>
          (case clause_loop where' (keys where') ([], sqlValues0) of
             (whereStrings, sqlValues) \<Rightarrow>
               new_DatabaseQuery
                 (Some (''UPDATE '' @ tableName @ '' SET '' @ join sqlStrings '', ''
                        @ '' WHERE '' @ join whereStrings '' AND ''))
                 (Some sqlValues)))"

definition getDelete :: "string \<Rightarrow> object \<Rightarrow> DatabaseQuery" where
  "getDelete tableName where' =
     (case clause_loop where' (keys where') ([], []) of
        (whereStrings, sqlValues) \<Rightarrow>
          new_DatabaseQuery
            (Some (''DELETE FROM '' @ tableName @ '' WHERE '' @ join whereStrings '' AND ''))
            (Some sqlValues))"

text \<open>
  \<^verbatim>\<open>_isArray\<close> / \<^verbatim>\<open>enyo.isArray\<close>. The argument is either an array or some other
  value. The standalone body is
  \<^verbatim>\<open>return Object.prototype.toString.apply(it) === '[object Array]';\<close>
  with parameter \<^verbatim>\<open>testIt\<close>: the name \<^verbatim>\<open>it\<close> is declared nowhere in the file, so
  evaluating it raises a ReferenceError before the argument is looked at.
\<close>

datatype 'a one_or_array = One 'a | Array "'a list"

fun isArray :: "variant \<Rightarrow> 'a one_or_array \<Rightarrow> error + bool" where
  "isArray Standalone testIt = Inl (ReferenceError ''it'')"
| "isArray Enyo (Array xs) = Inr True"
| "isArray Enyo (One x) = Inr False"

text \<open>
  \<^verbatim>\<open>getSelect\<close>. The \<^verbatim>\<open>columns\<close> argument may be left out (\<^verbatim>\<open>undefined\<close>), be
  \<^verbatim>\<open>null\<close>, a string or an array of column names; \<^verbatim>\<open>where\<close> may be left out.
  \<open>colStr\<close> starts as \<^verbatim>\<open>''\<close>; it becomes \<^verbatim>\<open>'*'\<close> under the test
  \<^verbatim>\<open>columns === null || columns === ''\<close>, the joined names when \<^verbatim>\<open>columns\<close> is an
  array, and stays empty otherwise. When \<^verbatim>\<open>where\<close> is left out \<open>sqlValues\<close> is never
  assigned and the constructor receives \<^verbatim>\<open>undefined\<close>.
\<close>

datatype columns_arg =
    ColumnsUndefined
  | ColumnsNull
  | ColumnsString string
  | ColumnsArray "string list"

fun columns_shape :: "columns_arg \<Rightarrow> string one_or_array" where
  "columns_shape (ColumnsArray cs) = Array cs"
| "columns_shape (ColumnsString s) = One s"
| "columns_shape ColumnsUndefined = One []"
| "columns_shape ColumnsNull = One []"

fun columns_loop :: "string list \<Rightarrow> string list \<Rightarrow> string list" where
  "columns_loop [] colStr = colStr"
| "columns_loop (c # rest) colStr = columns_loop rest (colStr @ [c])"

definition getSelect_colStr :: "variant \<Rightarrow> columns_arg \<Rightarrow> error + string" where
  "getSelect_colStr v columns =
     (if columns = ColumnsNull \<or> columns = ColumnsString [] then Inr ''*''
      else (case isArray v (columns_shape columns) of
              Inl e \<Rightarrow> Inl e
            | Inr True \<Rightarrow>
                (case columns of
                   ColumnsArray cs \<Rightarrow> Inr (join (columns_loop cs []) '', '')
                 | _ \<Rightarrow> Inr [])
            | Inr False \<Rightarrow> Inr []))"

definition getSelect ::
  "variant \<Rightarrow> string \<Rightarrow> columns_arg \<Rightarrow> object option \<Rightarrow> error + DatabaseQuery"
where
  "getSelect v tableName columns where' =
     (case getSelect_colStr v columns of
        Inl e \<Rightarrow> Inl e
      | Inr colStr \<Rightarrow>
          let sql0 = ''SELECT '' @ colStr @ '' FROM '' @ tableName in
          (case where' of
             None \<Rightarrow> Inr (new_DatabaseQuery (Some sql0) None)
           | Some w \<Rightarrow>
               (case clause_loop w (keys w) ([], []) of
                  (whereStrings, sqlValues) \<Rightarrow>
                    Inr (new_DatabaseQuery
                           (Some (sql0 @ '' WHERE '' @ join whereStrings '' AND ''))
                           (Some sqlValues)))))"

text \<open>
  \<^verbatim>\<open>getCreateTable\<close>. A column object has \<^verbatim>\<open>column\<close>, \<^verbatim>\<open>type\<close> and, optionally,
  an array \<^verbatim>\<open>constraints\<close>; an array is truthy even when empty. \<^verbatim>\<open>ifNotExists\<close>
  left out means \<^verbatim>\<open>true\<close>.
\<close>

record ColumnDef =
  column :: string
  type :: string
  constraints :: "string list option"

definition colDef :: "ColumnDef \<Rightarrow> string" where
  "colDef col =
     (let d = column col @ '' '' @ type col in
      case constraints col of
        Some cs \<Rightarrow> d @ '' '' @ join cs '' ''
      | None \<Rightarrow> d)"

fun getCreateTable_loop :: "ColumnDef list \<Rightarrow> string list \<Rightarrow> string list" where
  "getCreateTable_loop [] colStr = colStr"
| "getCreateTable_loop (col # rest) colStr = getCreateTable_loop rest (colStr @ [colDef col])"

definition getCreateTable :: "string \<Rightarrow> ColumnDef list \<Rightarrow> bool option \<Rightarrow> string" where
  "getCreateTable tableName columns ifNotExists =
     (let ifNotExists1 = (case ifNotExists of Some b \<Rightarrow> b | None \<Rightarrow> True);
          sql0 = ''CREATE TABLE '' @ (if ifNotExists1 then ''IF NOT EXISTS '' else [])
                 @ tableName @ '' (''
      in sql0 @ join (getCreateTable_loop columns []) '', '' @ '')'')"

definition getDropTable :: "string \<Rightarrow> string" where
  "getDropTable tableName = ''DROP TABLE IF EXISTS '' @ tableName"

text \<open>Counting placeholders, and names that hold none.\<close>

definition placeholders :: "string \<Rightarrow> nat" where
  "placeholders s = count_list s CHR ''?''"

definition plain_name :: "string \<Rightarrow> bool" where
  "plain_name s = (CHR ''?'' \<notin> set s)"

section \<open>The handle, the host and what a call leaves behind\<close>

text \<open>
  The handle's own fields: \<open>db\<close> says whether \<^verbatim>\<open>this._db\<close> (\<^verbatim>\<open>this.db\<close> in the Enyo
  build) holds a connection object, which is all that the guard \<^verbatim>\<open>if (!this._db)\<close>
  reads; \<open>dbVersion\<close> is the cached version, \<open>debug\<close> the tracing flag.
\<close>

record database =
  db :: bool
  dbVersion :: jsval
  lastInsertRowId :: jsval
  debug :: bool

text \<open>
  Creating the handle. \<open>opened\<close> is what \<^verbatim>\<open>openDatabase\<close> returns: nothing, or a
  connection with the database's version. The standalone constructor throws when it
  gets no connection, so no handle comes to exist; the Enyo \<^verbatim>\<open>create\<close> writes to the
  error log and returns, and the component stays without a connection (it does not call
  \<^verbatim>\<open>openDatabase\<close> at all when the database name is empty).
\<close>

definition create :: "variant \<Rightarrow> string \<Rightarrow> bool \<Rightarrow> jsval option \<Rightarrow> error + database" where
  "create v name dbg opened =
     (case v of
        Standalone \<Rightarrow>
          (case opened of
             None \<Rightarrow> Inl (Error (''Database: failed to open database named '' @ name))
           | Some ver \<Rightarrow>
               Inr \<lparr>db = True, dbVersion = ver, lastInsertRowId = Num 0, debug = dbg\<rparr>)
      | Enyo \<Rightarrow>
          (if name = []
           then Inr \<lparr>db = False, dbVersion = Null, lastInsertRowId = Num 0, debug = dbg\<rparr>
           else (case opened of
                   None \<Rightarrow>
                     Inr \<lparr>db = False, dbVersion = Null, lastInsertRowId = Num 0, debug = dbg\<rparr>
                 | Some ver \<Rightarrow>
                     Inr \<lparr>db = True, dbVersion = ver, lastInsertRowId = Num 0, debug = dbg\<rparr>)))"

definition getVersion :: "database \<Rightarrow> jsval" where
  "getVersion d = dbVersion d"

text \<open>
  The functions a caller can put into \<^verbatim>\<open>options\<close>: the two defaults of
  \<^verbatim>\<open>_getOptions\<close> and the caller's own, which are opaque and known by a name.
\<close>

datatype callback = EmptyFunction | ErrorHandler | UserFunction string

record options =
  onSuccess :: "callback option"
  onError :: "callback option"
  values'' :: "jsval list option"

text \<open>
  What can be observed of a call, in order: the calls into the host connection
  (\<open>Transaction\<close>, \<open>ChangeVersion\<close>, \<open>Close\<close>), each statement the host runs with the
  host's verdict, the host reporting through a success or an error callback
  (\<open>Success\<close>, \<open>Failure\<close>), an exception raised inside a callback that the host runs,
  the caller's functions being called, and console output (\<open>Debug\<close> is the SQL echo
  under the debug flag).
\<close>

datatype event =
    Transaction
  | ChangeVersion jsval jsval
  | Close
  | ExecuteSql string "jsval list" bool
  | Success
  | Failure
  | Raised error
  | Call string
  | Log string
  | Debug string "jsval list"

record outcome =
  thrown :: "error option"
  trace :: "event list"
  handle :: database

text \<open>
  The host is a parameter: \<open>statement_ok h n\<close> is its verdict on the \<open>n\<close>-th statement
  it is given (counted from 0 over the whole run), \<open>version_ok h\<close> says whether the
  version the handle passes to \<^verbatim>\<open>changeVersion\<close> is the database's actual one, and
  \<open>insertId h n\<close> is \<^verbatim>\<open>results.insertId\<close> of the \<open>n\<close>-th statement where reading it
  does not throw.
\<close>

record host =
  statement_ok :: "nat \<Rightarrow> bool"
  version_ok :: bool
  insertId :: "nat \<Rightarrow> jsval option"

text \<open>
  Modelled from the spec: the host's transaction primitive, which is no code of this
  repository (section 6: it exposes \<^verbatim>\<open>executeStatement\<close> within scope and resolves
  overall success or failure after the queued statements settle). The statements queued
  by the transaction callback run in order; the first one the host rejects, having no
  error callback of its own, fails the transaction and the rest is not run. A
  transaction whose statements were all accepted is taken to commit. The result is the
  statements run and whether all of them succeeded.
\<close>

fun run_statements :: "host \<Rightarrow> nat \<Rightarrow> (string \<times> jsval list) list \<Rightarrow> event list \<times> bool" where
  "run_statements h n [] = ([], True)"
| "run_statements h n ((s, vs) # rest) =
     (if statement_ok h n
      then (case run_statements h (Suc n) rest of (evs, ok) \<Rightarrow> (ExecuteSql s vs True # evs, ok))
      else ([ExecuteSql s vs False], False))"

fun call :: "callback option \<Rightarrow> event list" where
  "call None = []"
| "call (Some EmptyFunction) = []"
| "call (Some ErrorHandler) = [Log ''Database error'']"
| "call (Some (UserFunction f)) = [Call f]"

text \<open>
  \<^verbatim>\<open>_mixin\<close> / \<^verbatim>\<open>enyo.mixin\<close> copies every property the source has over the target's,
  and \<^verbatim>\<open>_getOptions\<close> lays the caller's options over the defaults.
\<close>

definition mixin :: "options \<Rightarrow> options \<Rightarrow> options" where
  "mixin target source =
     \<lparr>onSuccess = (case onSuccess source of Some f \<Rightarrow> Some f | None \<Rightarrow> onSuccess target),
      onError = (case onError source of Some f \<Rightarrow> Some f | None \<Rightarrow> onError target),
      values'' = (case values'' source of Some vs \<Rightarrow> Some vs | None \<Rightarrow> values'' target)\<rparr>"

definition getOptions :: "options \<Rightarrow> options option \<Rightarrow> options" where
  "getOptions userOptions extraOptions =
     (let opts = \<lparr>onSuccess = Some EmptyFunction, onError = Some ErrorHandler, values'' = None\<rparr>;
          opts1 = (case extraOptions of Some extra \<Rightarrow> mixin opts extra | None \<Rightarrow> opts)
      in mixin opts1 userOptions)"

text \<open>
  \<^verbatim>\<open>_db_lost\<close>: the standalone build throws, the Enyo build writes the message to the
  error log and returns.
\<close>

definition db_lost :: "variant \<Rightarrow> database \<Rightarrow> outcome" where
  "db_lost v d =
     (case v of
        Standalone \<Rightarrow>
          \<lparr>thrown = Some (Error ''Database: connection has been closed or lost; cannot execute SQL''),
           trace = [], handle = d\<rparr>
      | Enyo \<Rightarrow>
          \<lparr>thrown = None,
           trace = [Log ''Database: connection has been closed or lost; cannot execute SQL''],
           handle = d\<rparr>)"

text \<open>\<^verbatim>\<open>close\<close> forwards to the connection object and assigns nothing.\<close>

definition close :: "database \<Rightarrow> outcome" where
  "close d =
     (if db d then \<lparr>thrown = None, trace = [Close], handle = d\<rparr>
      else \<lparr>thrown = Some (TypeError ''close''), trace = [], handle = d\<rparr>)"

section \<open>query\<close>

text \<open>
  The statement text is trimmed with \<^verbatim>\<open>sql.replace(/(^\s*|\s*$)/g, '')\<close> and gets a
  \<^verbatim>\<open>';'\<close> appended under the test \<^verbatim>\<open>sql.lastIndexOf(';') !== sql.length - 1\<close>.
  \<open>is_space\<close> is the class \<^verbatim>\<open>\s\<close> on single-byte characters.
\<close>

definition is_space :: "char \<Rightarrow> bool" where
  "is_space c = (c \<in> set [CHR 0x09, CHR 0x0A, CHR 0x0B, CHR 0x0C, CHR 0x0D, CHR 0x20, CHR 0xA0])"

definition trim :: "string \<Rightarrow> string" where
  "trim s = rev (dropWhile is_space (rev (dropWhile is_space s)))"

definition lastIndexOf :: "string \<Rightarrow> char \<Rightarrow> int" where
  "lastIndexOf s c = int (length (dropWhile (\<lambda>x. x \<noteq> c) (rev s))) - 1"

definition query_sql :: "string \<Rightarrow> string" where
  "query_sql sql0 =
     (let sql1 = trim sql0
      in if lastIndexOf sql1 CHR '';'' \<noteq> int (length sql1) - 1 then sql1 @ '';'' else sql1)"

datatype query = SqlString string | QueryObject DatabaseQuery

definition query :: "variant \<Rightarrow> host \<Rightarrow> database \<Rightarrow> query \<Rightarrow> options \<Rightarrow> outcome" where
  "query v h d sql0 options0 =
     (if \<not> db d then db_lost v d
      else
        let (sql1, options1) =
              (case sql0 of
                 SqlString s \<Rightarrow> (s, options0)
               | QueryObject q \<Rightarrow> (sql q, options0\<lparr>values'' := Some (values' q)\<rparr>));
            options2 = getOptions options1
                         (Some \<lparr>onSuccess = None, onError = None, values'' = Some []\<rparr>);
            sql2 = query_sql sql1;
            vals = (case values'' options2 of Some vs \<Rightarrow> vs | None \<Rightarrow> []);
            echo = (if debug d then [Debug sql2 vals] else [])
        in if statement_ok h 0
           then \<lparr>thrown = None,
                 trace = Transaction # echo @ ExecuteSql sql2 vals True # Success
                         # call (onSuccess options2),
                 handle = (case insertId h 0 of
                             Some i \<Rightarrow> d\<lparr>lastInsertRowId := i\<rparr>
                           | None \<Rightarrow> d)\<rparr>
           else \<lparr>thrown = None,
                 trace = Transaction # echo @ ExecuteSql sql2 vals False # Failure
                         # call (onError options2),
                 handle = d\<rparr>)"

section \<open>queries\<close>

text \<open>
  The transaction callback of \<^verbatim>\<open>queries\<close> walks the array and queues one
  \<^verbatim>\<open>executeSql\<close> per entry. \<open>sql'\<close> and \<open>vals\<close> are declared before the loop, so a
  string entry keeps the values of the query object before it. The Enyo build tests the
  local \<^verbatim>\<open>DEBUG\<close>; the standalone build tests \<^verbatim>\<open>debug\<close>, a name declared nowhere in
  the file, which raises a ReferenceError in the first pass through the loop body,
  before anything is queued. The result is the console output and either the error the
  callback raised or the statements it queued.
\<close>

fun queries_loop ::
  "variant \<Rightarrow> bool \<Rightarrow> query list \<Rightarrow> string \<times> jsval list
     \<Rightarrow> event list \<times> (error + (string \<times> jsval list) list)"
where
  "queries_loop v DEBUG [] st = ([], Inr [])"
| "queries_loop Standalone DEBUG (q # rest) st = ([], Inl (ReferenceError ''debug''))"
| "queries_loop Enyo DEBUG (q # rest) (sql', vals) =
     (let (sql1, vals1) =
            (case q of SqlString s \<Rightarrow> (s, vals) | QueryObject qo \<Rightarrow> (sql qo, values' qo));
          echo = (if DEBUG then [Debug sql1 vals1] else [])
      in (case queries_loop Enyo DEBUG rest (sql1, vals1) of
            (logs, Inl e) \<Rightarrow> (echo @ logs, Inl e)
          | (logs, Inr queue) \<Rightarrow> (echo @ logs, Inr ((sql1, vals1) # queue))))"

text \<open>
  \<^verbatim>\<open>queries\<close> after its options are merged. Only the last statement is queued with a
  success callback, so what that callback starts comes after the whole batch;
  \<open>succeed\<close> is what it does, given the number of statements the host has run by then.
  The error callback is the transaction's. An empty array queues nothing, and then no
  callback is ever called.
\<close>

definition queries_with ::
  "variant \<Rightarrow> host \<Rightarrow> nat \<Rightarrow> database \<Rightarrow> query list \<Rightarrow> (nat \<Rightarrow> event list)
     \<Rightarrow> callback option \<Rightarrow> outcome"
where
  "queries_with v h n d qs succeed onError' =
     (if \<not> db d then db_lost v d
      else
        \<lparr>thrown = None,
         trace = Transaction #
           (case queries_loop v (debug d) qs ([], []) of
              (logs, Inl e) \<Rightarrow> logs @ Raised e # Failure # call onError'
            | (logs, Inr queue) \<Rightarrow>
                (case run_statements h n queue of
                   (evs, ok) \<Rightarrow>
                     logs @ evs @
                     (if \<not> ok then Failure # call onError'
                      else if queue = [] then []
                      else Success # succeed (n + length queue)))),
         handle = d\<rparr>)"

definition queries ::
  "variant \<Rightarrow> host \<Rightarrow> nat \<Rightarrow> database \<Rightarrow> query list \<Rightarrow> options \<Rightarrow> outcome"
where
  "queries v h n d qs options0 =
     (let options1 = getOptions options0 None
      in queries_with v h n d qs (\<lambda>m. call (onSuccess options1)) (onError options1))"

section \<open>setSchema and insertData\<close>

text \<open>
  A schema entry is an SQL string or a table object with \<^verbatim>\<open>table\<close>, optional
  \<^verbatim>\<open>columns\<close> and optional \<^verbatim>\<open>data\<close> (one row object or an array of them); an entry
  of \<^verbatim>\<open>insertData\<close> is a table object without the columns.
\<close>

datatype schema_item =
    SqlItem string
  | TableObject string "ColumnDef list option" "object one_or_array option"

datatype table_data = TableData string "object one_or_array option"

text \<open>
  After \<^verbatim>\<open>if (!isArray(x)) { x = [x]; }\<close> the value is an array: the one the caller
  passed, or the single value wrapped.
\<close>

fun as_array :: "'a one_or_array \<Rightarrow> 'a list" where
  "as_array (One x) = [x]"
| "as_array (Array xs) = xs"

fun insertData_rows :: "string \<Rightarrow> object list \<Rightarrow> query list \<Rightarrow> query list" where
  "insertData_rows tableName [] dataQueries = dataQueries"
| "insertData_rows tableName (row # rest) dataQueries =
     insertData_rows tableName rest (dataQueries @ [QueryObject (getInsert tableName row)])"

fun insertData_loop :: "variant \<Rightarrow> table_data list \<Rightarrow> query list \<Rightarrow> error + query list" where
  "insertData_loop v [] dataQueries = Inr dataQueries"
| "insertData_loop v (TableData tableName None # rest) dataQueries =
     insertData_loop v rest dataQueries"
| "insertData_loop v (TableData tableName (Some rows) # rest) dataQueries =
     (case isArray v rows of
        Inl e \<Rightarrow> Inl e
      | Inr b \<Rightarrow> insertData_loop v rest (insertData_rows tableName (as_array rows) dataQueries))"

definition insertData ::
  "variant \<Rightarrow> host \<Rightarrow> nat \<Rightarrow> database \<Rightarrow> table_data one_or_array \<Rightarrow> options \<Rightarrow> outcome"
where
  "insertData v h n d data options0 =
     (case isArray v data of
        Inl e \<Rightarrow> \<lparr>thrown = Some e, trace = [], handle = d\<rparr>
      | Inr b \<Rightarrow>
          let options1 = getOptions options0 None
          in (case insertData_loop v (as_array data) [] of
                Inl e \<Rightarrow> \<lparr>thrown = Some e, trace = [], handle = d\<rparr>
              | Inr dataQueries \<Rightarrow> queries v h n d dataQueries options1))"

fun setSchema_loop ::
  "schema_item list \<Rightarrow> string list \<times> table_data list \<Rightarrow> string list \<times> table_data list"
where
  "setSchema_loop [] st = st"
| "setSchema_loop (SqlItem s # rest) (tableQueries, data) =
     setSchema_loop rest (tableQueries @ [s], data)"
| "setSchema_loop (TableObject tableName cols rows # rest) (tableQueries, data) =
     setSchema_loop rest
       ((case cols of
           Some cs \<Rightarrow> tableQueries @ [getCreateTable tableName cs None]
         | None \<Rightarrow> tableQueries),
        (case rows of
           Some r \<Rightarrow> data @ [TableData tableName (Some r)]
         | None \<Rightarrow> data))"

text \<open>
  \<^verbatim>\<open>dataInsertFollowup\<close> is \<^verbatim>\<open>insertData\<close> bound to \<open>data\<close> and the merged options; it
  is handed to \<^verbatim>\<open>queries\<close> as the success callback. Should it throw, the exception is
  raised inside a statement callback, which fails the transaction. (The standalone
  \<^verbatim>\<open>_bind\<close> drops the bound arguments; its \<^verbatim>\<open>insertData\<close> throws on any argument
  at its first line, so the outcome is the same.)
\<close>

definition dataInsertFollowup ::
  "variant \<Rightarrow> host \<Rightarrow> database \<Rightarrow> table_data list \<Rightarrow> options \<Rightarrow> nat \<Rightarrow> event list"
where
  "dataInsertFollowup v h d data options1 n =
     (let r = insertData v h n d (Array data) options1
      in (case thrown r of
            None \<Rightarrow> trace r
          | Some e \<Rightarrow> trace r @ Raised e # Failure # call (onError options1)))"

definition setSchema ::
  "variant \<Rightarrow> host \<Rightarrow> database \<Rightarrow> schema_item one_or_array \<Rightarrow> options \<Rightarrow> outcome"
where
  "setSchema v h d schema options0 =
     (case isArray v schema of
        Inl e \<Rightarrow> \<lparr>thrown = Some e, trace = [], handle = d\<rparr>
      | Inr b \<Rightarrow>
          let options1 = getOptions options0 None
          in (case setSchema_loop (as_array schema) ([], []) of
                (tableQueries, data) \<Rightarrow>
                  if length data > 0
                  then queries_with v h 0 d (map SqlString tableQueries)
                         (dataInsertFollowup v h d data options1) (onError options1)
                  else queries v h 0 d (map SqlString tableQueries) options1))"

section \<open>Changing the version\<close>

text \<open>
  Modelled from the spec: the host's atomic version-change primitive
  \<^verbatim>\<open>changeVersion(connection, fromVersion, toVersion, upgradeBody, onFailure, onSuccess)\<close>
  (section 6), which is no code of this repository. It fails when the version passed is
  not the database's, when the upgrade body raises, or when a statement the body queued
  is rejected; otherwise it commits. The result is what the host did and whether it
  committed.
\<close>

definition host_changeVersion ::
  "host \<Rightarrow> event list \<times> (error + (string \<times> jsval list) list) \<Rightarrow> event list \<times> bool"
where
  "host_changeVersion h body =
     (if \<not> version_ok h then ([], False)
      else (case body of
              (logs, Inl e) \<Rightarrow> (logs @ [Raised e], False)
            | (logs, Inr queue) \<Rightarrow>
                (case run_statements h 0 queue of (evs, ok) \<Rightarrow> (logs @ evs, ok))))"

text \<open>
  \<^verbatim>\<open>changeVersion(newVersion)\<close>; called with two arguments it takes the second
  (the older signature \<^verbatim>\<open>changeVersion(from, to)\<close>). The two callbacks only write to
  the log under the debug flag; the assignment to the cached version is the statement
  after the host call.
\<close>

definition changeVersion ::
  "variant \<Rightarrow> host \<Rightarrow> database \<Rightarrow> jsval \<Rightarrow> jsval option \<Rightarrow> outcome"
where
  "changeVersion v h d newVersion0 second =
     (let newVersion = (case second of Some to \<Rightarrow> to | None \<Rightarrow> newVersion0)
      in if \<not> db d
         then \<lparr>thrown = Some (TypeError ''changeVersion''), trace = [], handle = d\<rparr>
         else
           (case host_changeVersion h ([], Inr []) of
              (evs, committed) \<Rightarrow>
                \<lparr>thrown = None,
                 trace = ChangeVersion (dbVersion d) newVersion # evs @
                   (if committed
                    then Success # (if debug d then [Log ''DATABASE VERSION UPDATE SUCCESS''] else [])
                    else Failure # (if debug d then [Log ''DATABASE VERSION UPDATE FAILED''] else [])),
                 handle = d\<lparr>dbVersion := newVersion\<rparr>\<rparr>))"

text \<open>
  The upgrade body of \<^verbatim>\<open>changeVersionWithSchema\<close>. \<open>query'\<close> is declared before the
  loop and starts as \<^verbatim>\<open>null\<close>: a table object without columns leaves it as the entry
  before set it, and reading \<^verbatim>\<open>query.sql\<close> of \<^verbatim>\<open>null\<close> raises a TypeError.
\<close>

fun changeVersionWithSchema_loop ::
  "bool \<Rightarrow> schema_item list \<Rightarrow> string option
     \<Rightarrow> event list \<times> (error + (string \<times> jsval list) list)"
where
  "changeVersionWithSchema_loop dbg [] query' = ([], Inr [])"
| "changeVersionWithSchema_loop dbg (item # rest) query' =
     (let query1 =
            (case item of
               SqlItem s \<Rightarrow> Some s
             | TableObject tableName (Some cs) rows \<Rightarrow> Some (getCreateTable tableName cs None)
             | TableObject tableName None rows \<Rightarrow> query')
      in (case query1 of
            None \<Rightarrow> ([], Inl (TypeError ''query''))
          | Some s \<Rightarrow>
              (let echo = (if dbg then [Debug s []] else [])
               in (case changeVersionWithSchema_loop dbg rest query1 of
                     (logs, Inl e) \<Rightarrow> (echo @ logs, Inl e)
                   | (logs, Inr queue) \<Rightarrow> (echo @ logs, Inr ((s, []) # queue))))))"

text \<open>
  \<^verbatim>\<open>_versionChanged(newVersion, callback)\<close> assigns the cached version and calls the
  callback; \<^verbatim>\<open>changeVersionWithSchema\<close> binds it to \<open>newVersion\<close> and
  \<^verbatim>\<open>options.onSuccess\<close> and passes it to the host as the success callback, with
  \<^verbatim>\<open>options.onError\<close> as the error callback.
\<close>

definition versionChanged :: "database \<Rightarrow> jsval \<Rightarrow> callback option \<Rightarrow> database \<times> event list" where
  "versionChanged d newVersion callback' = (d\<lparr>dbVersion := newVersion\<rparr>, call callback')"

definition changeVersionWithSchema ::
  "variant \<Rightarrow> host \<Rightarrow> database \<Rightarrow> jsval \<Rightarrow> schema_item one_or_array \<Rightarrow> options \<Rightarrow> outcome"
where
  "changeVersionWithSchema v h d newVersion schema options0 =
     (case isArray v schema of
        Inl e \<Rightarrow> \<lparr>thrown = Some e, trace = [], handle = d\<rparr>
      | Inr b \<Rightarrow>
          let options1 = getOptions options0 None
          in if \<not> db d
             then \<lparr>thrown = Some (TypeError ''changeVersion''), trace = [], handle = d\<rparr>
             else
               (case host_changeVersion h
                       (changeVersionWithSchema_loop (debug d) (as_array schema) None) of
                  (evs, committed) \<Rightarrow>
                    if committed
                    then (case versionChanged d newVersion (onSuccess options1) of
                            (d1, called) \<Rightarrow>
                              \<lparr>thrown = None,
                               trace = ChangeVersion (dbVersion d) newVersion # evs @ Success # called,
                               handle = d1\<rparr>)
                    else \<lparr>thrown = None,
                          trace = ChangeVersion (dbVersion d) newVersion # evs @ Failure
                                  # call (onError options1),
                          handle = d\<rparr>))"

text \<open>Projections of a trace.\<close>

fun is_host_call :: "event \<Rightarrow> bool" where
  "is_host_call Transaction = True"
| "is_host_call (ChangeVersion old new) = True"
| "is_host_call Close = True"
| "is_host_call (ExecuteSql s vs ok) = True"
| "is_host_call e = False"

definition touches_host :: "event list \<Rightarrow> bool" where
  "touches_host tr = list_ex is_host_call tr"

fun is_echo :: "event \<Rightarrow> bool" where
  "is_echo (Debug s vs) = True"
| "is_echo e = False"

definition quiet :: "event list \<Rightarrow> event list" where
  "quiet tr = filter (\<lambda>e. \<not> is_echo e) tr"

text \<open>
  The WHERE clause and the values that \<^verbatim>\<open>getSelect\<close> renders from its third argument,
  in closed form (used to state its result).
\<close>

definition where_clause :: "object option \<Rightarrow> string" where
  "where_clause w =
     (case w of
        None \<Rightarrow> []
      | Some p \<Rightarrow> '' WHERE '' @ join (map (\<lambda>k. k @ '' = ?'') (keys p)) '' AND '')"

definition where_values :: "object option \<Rightarrow> jsval list" where
  "where_values w = (case w of None \<Rightarrow> [] | Some p \<Rightarrow> map (property p) (keys p))"

text \<open>The INSERT statements of one entry of \<^verbatim>\<open>insertData\<close>, row by row.\<close>

fun inserts_of :: "table_data \<Rightarrow> DatabaseQuery list" where
  "inserts_of (TableData tableName None) = []"
| "inserts_of (TableData tableName (Some rows)) = map (getInsert tableName) (as_array rows)"

text \<open>
  The two phases as the specification words them (section 4.2), to compare the loops of
  \<^verbatim>\<open>setSchema\<close> and \<^verbatim>\<open>insertData\<close> with: the structure statements are the raw SQL
  strings and one CREATE TABLE per table object with columns, in plan order; the data
  statements are one INSERT per row of every table object with data, in plan order and
  then row order.
\<close>

fun structure_of :: "schema_item \<Rightarrow> string list" where
  "structure_of (SqlItem s) = [s]"
| "structure_of (TableObject tableName (Some cs) rows) = [getCreateTable tableName cs None]"
| "structure_of (TableObject tableName None rows) = []"

definition structure_statements :: "schema_item list \<Rightarrow> string list" where
  "structure_statements plan = concat (map structure_of plan)"

fun data_of :: "schema_item \<Rightarrow> DatabaseQuery list" where
  "data_of (SqlItem s) = []"
| "data_of (TableObject tableName cs (Some rows)) = map (getInsert tableName) (as_array rows)"
| "data_of (TableObject tableName cs None) = []"

definition data_statements :: "schema_item list \<Rightarrow> DatabaseQuery list" where
  "data_statements plan = concat (map data_of plan)"

fun carries_data :: "schema_item \<Rightarrow> bool" where
  "carries_data (TableObject tableName cs (Some rows)) = True"
| "carries_data item = False"

text \<open>The entries \<^verbatim>\<open>setSchema\<close> pushes onto its \<^verbatim>\<open>data\<close> array.\<close>

fun table_data_of :: "schema_item \<Rightarrow> table_data list" where
  "table_data_of (SqlItem s) = []"
| "table_data_of (TableObject tableName cs (Some rows)) = [TableData tableName (Some rows)]"
| "table_data_of (TableObject tableName cs None) = []"

text \<open>The statements a trace hands to the host, in order.\<close>

fun statements :: "event list \<Rightarrow> (string \<times> jsval list) list" where
  "statements [] = []"
| "statements (ExecuteSql s vs ok # es) = (s, vs) # statements es"
| "statements (e # es) = statements es"

section \<open>Properties of the builders\<close>

subsection \<open>The loops in closed form\<close>

lemma getInsert_loop_eq:
  "getInsert_loop row ks (s, vs, cv) =
     (s @ concat (map (\<lambda>k. k @ '', '') ks),
      vs @ concat (map (\<lambda>k. ''?, '') ks),
      cv @ map (property row) ks)"
  by (induction ks arbitrary: s vs cv) simp_all

lemma clause_loop_eq:
  "clause_loop obj ks (strings, vals) =
     (strings @ map (\<lambda>k. k @ '' = ?'') ks, vals @ map (property obj) ks)"
  by (induction ks arbitrary: strings vals) simp_all

lemma columns_loop_eq: "columns_loop cs acc = acc @ cs"
  by (induction cs arbitrary: acc) simp_all

lemma getCreateTable_loop_eq: "getCreateTable_loop cols acc = acc @ map colDef cols"
  by (induction cols arbitrary: acc) simp_all

lemma substr_cut2: "substr s 0 (int (length s) - 2) = butlast (butlast s)"
  by (auto simp: substr_def butlast_conv_take min_def numeral_2_eq_2 nat_diff_distrib)

lemma concat_sep_join:
  "ks \<noteq> [] \<Longrightarrow> concat (map (\<lambda>k. f k @ sep) ks) = join (map f ks) sep @ sep"
proof (induction ks)
  case Nil
  then show ?case by simp
next
  case (Cons k ks)
  then show ?case by (cases ks) simp_all
qed

lemma getInsert_empty:
  "keys row = [] \<Longrightarrow>
   getInsert tableName row =
     \<lparr>sql = ''INSERT INTO '' @ tableName @ '')'' @ '' VALUES)'', values' = []\<rparr>"
  by (simp add: getInsert_def getInsert_loop_eq substr_cut2 new_DatabaseQuery_def butlast_append)

lemma getInsert_nonempty:
  assumes "keys row \<noteq> []"
  shows "getInsert tableName row =
     \<lparr>sql = ''INSERT INTO '' @ tableName @ '' ('' @ join (keys row) '', '' @ '')''
             @ '' VALUES ('' @ join (map (\<lambda>k. ''?'') (keys row)) '', '' @ '')'',
      values' = map (property row) (keys row)\<rparr>"
proof -
  have c1: "concat (map (\<lambda>k. k @ '', '') (keys row)) = join (keys row) '', '' @ '', ''"
    using concat_sep_join [OF assms, of "\<lambda>k. k" "'', ''"] by simp
  have c2: "concat (map (\<lambda>k. ''?, '') (keys row))
              = join (map (\<lambda>k. ''?'') (keys row)) '', '' @ '', ''"
    using concat_sep_join [OF assms, of "\<lambda>k. ''?''" "'', ''"] by simp
  show ?thesis
    by (simp add: getInsert_def getInsert_loop_eq c1 c2 substr_cut2 new_DatabaseQuery_def
          butlast_append)
qed

lemma getInsert_values: "values' (getInsert tableName row) = map (property row) (keys row)"
  by (cases "keys row = []") (simp_all add: getInsert_empty getInsert_nonempty)

lemma getUpdate_eq:
  "getUpdate tableName row where' =
     \<lparr>sql = ''UPDATE '' @ tableName @ '' SET ''
             @ join (map (\<lambda>k. k @ '' = ?'') (keys row)) '', ''
             @ '' WHERE '' @ join (map (\<lambda>k. k @ '' = ?'') (keys where')) '' AND '',
      values' = map (property row) (keys row) @ map (property where') (keys where')\<rparr>"
  by (simp add: getUpdate_def clause_loop_eq new_DatabaseQuery_def)

lemma getDelete_eq:
  "getDelete tableName where' =
     \<lparr>sql = ''DELETE FROM '' @ tableName @ '' WHERE ''
             @ join (map (\<lambda>k. k @ '' = ?'') (keys where')) '' AND '',
      values' = map (property where') (keys where')\<rparr>"
  by (simp add: getDelete_def clause_loop_eq new_DatabaseQuery_def)

subsection \<open>Placeholders\<close>

lemma placeholders_Nil [simp]: "placeholders [] = 0"
  by (simp add: placeholders_def)

lemma placeholders_Cons [simp]:
  "placeholders (c # s) = (if c = CHR ''?'' then 1 else 0) + placeholders s"
  by (simp add: placeholders_def)

lemma placeholders_append [simp]: "placeholders (xs @ ys) = placeholders xs + placeholders ys"
  by (simp add: placeholders_def)

lemma placeholders_plain [simp]: "plain_name s \<Longrightarrow> placeholders s = 0"
  by (simp add: placeholders_def plain_name_def)

lemma placeholders_join:
  "placeholders (join xs sep)
     = sum_list (map placeholders xs) + (length xs - 1) * placeholders sep"
  by (induction xs sep rule: join.induct) simp_all

lemma placeholders_names: "list_all plain_name ks \<Longrightarrow> sum_list (map placeholders ks) = 0"
  by (induction ks) simp_all

lemma placeholders_marks: "sum_list (map (placeholders \<circ> (\<lambda>k. ''?'')) ks) = length ks"
  by (induction ks) simp_all

lemma placeholders_clauses:
  "list_all plain_name ks
   \<Longrightarrow> sum_list (map (placeholders \<circ> (\<lambda>k. k @ '' = ?'')) ks) = length ks"
  by (induction ks) simp_all

lemma getInsert_placeholders:
  assumes "plain_name tableName" "list_all plain_name (keys row)"
  shows "placeholders (sql (getInsert tableName row)) = length (keys row)"
proof (cases "keys row = []")
  case True
  then show ?thesis using assms by (simp add: getInsert_empty)
next
  case False
  then show ?thesis using assms
    by (simp add: getInsert_nonempty placeholders_join placeholders_names placeholders_marks)
qed

text \<open>
  C1 (as amended). When neither the table name nor a key of the mappings contains the
  character \<^verbatim>\<open>?\<close>, the statements of \<^verbatim>\<open>getInsert\<close>, \<^verbatim>\<open>getUpdate\<close> and \<^verbatim>\<open>getDelete\<close>
  hold exactly as many \<^verbatim>\<open>?\<close> in their SQL text as values in their array; for
  \<^verbatim>\<open>getInsert\<close> that number is the number of keys of the row, and the values are the
  row's values in the order in which its keys are enumerated.
\<close>

theorem placeholders_match_values:
  assumes "plain_name tableName"
      and "list_all plain_name (keys row)"
      and "list_all plain_name (keys where')"
  shows "placeholders (sql (getInsert tableName row)) = length (values' (getInsert tableName row))
       \<and> placeholders (sql (getInsert tableName row)) = length (keys row)
       \<and> values' (getInsert tableName row) = map (property row) (keys row)
       \<and> placeholders (sql (getUpdate tableName row where'))
           = length (values' (getUpdate tableName row where'))
       \<and> placeholders (sql (getDelete tableName where'))
           = length (values' (getDelete tableName where'))"
proof -
  have ins: "placeholders (sql (getInsert tableName row)) = length (keys row)"
    using assms(1,2) by (rule getInsert_placeholders)
  have upd: "placeholders (sql (getUpdate tableName row where'))
               = length (keys row) + length (keys where')"
    using assms by (simp add: getUpdate_eq placeholders_join placeholders_clauses)
  have del: "placeholders (sql (getDelete tableName where')) = length (keys where')"
    using assms by (simp add: getDelete_eq placeholders_join placeholders_clauses)
  show ?thesis
    using ins upd del by (simp add: getInsert_values getUpdate_eq getDelete_eq)
qed

text \<open>C1, at a row of two keys and a predicate of one.\<close>

theorem placeholders_match_values_witness:
  "placeholders (sql (getInsert ''t'' [(''a'', Num 1), (''b'', Str ''x'')])) = 2
   \<and> values' (getInsert ''t'' [(''a'', Num 1), (''b'', Str ''x'')]) = [Num 1, Str ''x'']
   \<and> placeholders (sql (getUpdate ''t'' [(''a'', Num 1), (''b'', Str ''x'')] [(''id'', Num 7)])) = 3
   \<and> placeholders (sql (getDelete ''t'' [(''id'', Num 7)])) = 1"
  using placeholders_match_values
          [of "''t''" "[(''a'', Num 1), (''b'', Str ''x'')]" "[(''id'', Num 7)]"]
  by (simp add: plain_name_def keys_def property_def getUpdate_eq getDelete_eq)

text \<open>
  C1 as stated fails for a name that holds a \<^verbatim>\<open>?\<close> itself: the table name \<^verbatim>\<open>t?\<close>
  with the row \<^verbatim>\<open>{a: 1}\<close> gives \<^verbatim>\<open>INSERT INTO t? (a) VALUES (?)\<close>, two \<^verbatim>\<open>?\<close> for one
  value.
\<close>

theorem placeholders_table_name_counterexample:
  "sql (getInsert ''t?'' [(''a'', Num 1)]) = ''INSERT INTO t? (a) VALUES (?)''
   \<and> placeholders (sql (getInsert ''t?'' [(''a'', Num 1)])) = 2
   \<and> length (values' (getInsert ''t?'' [(''a'', Num 1)])) = 1"
  by (simp add: getInsert_nonempty keys_def)

text \<open>
  C4 as stated fails: no builder validates its arguments or raises. With an empty
  mapping each returns a statement, and its SQL is malformed.
\<close>

theorem empty_mappings_counterexample:
  "getInsert ''t'' [] = \<lparr>sql = ''INSERT INTO t) VALUES)'', values' = []\<rparr>
   \<and> getUpdate ''t'' [] [(''id'', Num 1)]
       = \<lparr>sql = ''UPDATE t SET  WHERE id = ?'', values' = [Num 1]\<rparr>
   \<and> getUpdate ''t'' [(''a'', Num 1)] []
       = \<lparr>sql = ''UPDATE t SET a = ? WHERE '', values' = [Num 1]\<rparr>
   \<and> getDelete ''t'' [] = \<lparr>sql = ''DELETE FROM t WHERE '', values' = []\<rparr>"
  by (simp add: getInsert_empty getUpdate_eq getDelete_eq keys_def property_def)

text \<open>
  C4 (as amended). With an empty row \<^verbatim>\<open>getInsert\<close> returns
  \<^verbatim>\<open>INSERT INTO <table>) VALUES)\<close> and no values; \<^verbatim>\<open>getUpdate\<close> with an empty row
  returns an empty SET list, with an empty predicate an empty WHERE clause, and in both
  cases the values of the other mapping; \<^verbatim>\<open>getDelete\<close> with an empty predicate returns
  \<^verbatim>\<open>DELETE FROM <table> WHERE \<close> and no values. The builders are pure: there is no
  host to call.
\<close>

theorem empty_mappings_build_statements:
  "getInsert tableName [] = \<lparr>sql = ''INSERT INTO '' @ tableName @ '') VALUES)'', values' = []\<rparr>
   \<and> getUpdate tableName [] where' =
       \<lparr>sql = ''UPDATE '' @ tableName @ '' SET  WHERE ''
               @ join (map (\<lambda>k. k @ '' = ?'') (keys where')) '' AND '',
        values' = map (property where') (keys where')\<rparr>
   \<and> getUpdate tableName row [] =
       \<lparr>sql = ''UPDATE '' @ tableName @ '' SET ''
               @ join (map (\<lambda>k. k @ '' = ?'') (keys row)) '', '' @ '' WHERE '',
        values' = map (property row) (keys row)\<rparr>
   \<and> getDelete tableName [] = \<lparr>sql = ''DELETE FROM '' @ tableName @ '' WHERE '', values' = []\<rparr>"
  by (simp add: getInsert_empty getUpdate_eq getDelete_eq keys_def)

text \<open>
  C8. With \<^verbatim>\<open>ifNotExists\<close> left out, \<^verbatim>\<open>getCreateTable\<close> renders
  \<^verbatim>\<open>CREATE TABLE IF NOT EXISTS <name> (<column> <type> <constraints>, ...)\<close>: the
  columns in the given order joined by \<^verbatim>\<open>', '\<close>, each with its constraints in the given
  order joined by a space; the table \<^verbatim>\<open>t\<close> with the one column \<^verbatim>\<open>id INTEGER\<close> and the
  constraint \<^verbatim>\<open>PRIMARY KEY\<close> gives exactly
  \<^verbatim>\<open>CREATE TABLE IF NOT EXISTS t (id INTEGER PRIMARY KEY)\<close>.
\<close>

theorem getCreateTable_renders:
  "getCreateTable tableName cols None =
     ''CREATE TABLE IF NOT EXISTS '' @ tableName @ '' (''
     @ join (map (\<lambda>c. column c @ '' '' @ type c
                        @ (case constraints c of None \<Rightarrow> [] | Some cs \<Rightarrow> '' '' @ join cs '' ''))
                 cols) '', ''
     @ '')''
   \<and> getCreateTable ''t''
         [\<lparr>column = ''id'', type = ''INTEGER'', constraints = Some [''PRIMARY KEY'']\<rparr>] None
       = ''CREATE TABLE IF NOT EXISTS t (id INTEGER PRIMARY KEY)''"
proof -
  have c: "colDef = (\<lambda>c. column c @ '' '' @ type c
                        @ (case constraints c of None \<Rightarrow> [] | Some cs \<Rightarrow> '' '' @ join cs '' ''))"
    by (rule ext) (simp add: colDef_def Let_def split: option.split)
  have "getCreateTable ''t''
          [\<lparr>column = ''id'', type = ''INTEGER'', constraints = Some [''PRIMARY KEY'']\<rparr>] None
        = ''CREATE TABLE IF NOT EXISTS t (id INTEGER PRIMARY KEY)''"
    by (simp add: getCreateTable_def colDef_def)
  then show ?thesis
    by (simp add: getCreateTable_def getCreateTable_loop_eq c)
qed

section \<open>getSelect, changeVersion and the standalone helpers\<close>

lemma getSelect_eq:
  "getSelect v tableName cols w =
     (case getSelect_colStr v cols of
        Inl e \<Rightarrow> Inl e
      | Inr colStr \<Rightarrow> Inr \<lparr>sql = ''SELECT '' @ colStr @ '' FROM '' @ tableName @ where_clause w,
                          values' = where_values w\<rparr>)"
  by (simp add: getSelect_def where_clause_def where_values_def clause_loop_eq new_DatabaseQuery_def
        Let_def split: sum.split option.split)

text \<open>
  What \<^verbatim>\<open>getSelect\<close> renders for \<^verbatim>\<open>null\<close>, in both builds, and for an array of
  column names in the Enyo build: \<^verbatim>\<open>*\<close>, and the names joined by \<^verbatim>\<open>', '\<close> in the
  given order.
\<close>

lemma getSelect_null_and_array:
  "getSelect v tableName ColumnsNull w =
     Inr \<lparr>sql = ''SELECT * FROM '' @ tableName @ where_clause w, values' = where_values w\<rparr>
   \<and> getSelect Enyo tableName (ColumnsArray cs) w =
     Inr \<lparr>sql = ''SELECT '' @ join cs '', '' @ '' FROM '' @ tableName @ where_clause w,
          values' = where_values w\<rparr>"
  by (simp add: getSelect_eq getSelect_colStr_def columns_loop_eq)

text \<open>
  C6. The claim fails on the code where \<^verbatim>\<open>columns\<close> is left out and where it is the
  empty array. The test \<^verbatim>\<open>columns === null || columns === ''\<close> is strict, so neither
  value takes the \<^verbatim>\<open>*\<close> branch: \<^verbatim>\<open>getSelect('t', undefined, {id: 1})\<close> and
  \<^verbatim>\<open>getSelect('t', [], {id: 1})\<close> return \<^verbatim>\<open>SELECT  FROM t WHERE id = ?\<close> in the Enyo
  build, a statement with no column list, and in the standalone build the call throws in
  \<^verbatim>\<open>_isArray\<close>. The same function of the Mojo build (version 1.0.0) tests
  \<^verbatim>\<open>columns == null || columns == ''\<close>, which holds of both values.
\<close>

theorem getSelect_strict_columns_test:
  "getSelect Enyo ''t'' ColumnsUndefined (Some [(''id'', Num 1)])
     = Inr \<lparr>sql = ''SELECT  FROM t WHERE id = ?'', values' = [Num 1]\<rparr>
   \<and> getSelect Enyo ''t'' (ColumnsArray []) (Some [(''id'', Num 1)])
     = Inr \<lparr>sql = ''SELECT  FROM t WHERE id = ?'', values' = [Num 1]\<rparr>
   \<and> getSelect Enyo ''t'' ColumnsUndefined None
     = Inr \<lparr>sql = ''SELECT  FROM t'', values' = []\<rparr>
   \<and> getSelect Enyo ''t'' (ColumnsArray []) None
     = Inr \<lparr>sql = ''SELECT  FROM t'', values' = []\<rparr>
   \<and> getSelect Standalone ''t'' ColumnsUndefined (Some [(''id'', Num 1)])
     = Inl (ReferenceError ''it'')
   \<and> getSelect Standalone ''t'' (ColumnsArray []) (Some [(''id'', Num 1)])
     = Inl (ReferenceError ''it'')"
  by (simp add: getSelect_eq getSelect_colStr_def columns_loop_eq where_clause_def where_values_def
        keys_def property_def)


text \<open>
  C3. \<^verbatim>\<open>changeVersion\<close> assigns the cached version right after the call into the
  host, whatever the host reports later: on a handle with a connection
  \<^verbatim>\<open>getVersion\<close> returns the new version also when the host fails the change. The
  second conjunct runs the call where the host reports failure: the cache goes from
  \<^verbatim>\<open>'1'\<close> to \<^verbatim>\<open>'2'\<close>.
\<close>

theorem changeVersion_caches_unconfirmed:
  "getVersion (handle (changeVersion v h d newVersion None)) = (if db d then newVersion else getVersion d)
   \<and> changeVersion Standalone
        \<lparr>statement_ok = (\<lambda>n. True), version_ok = False, insertId = (\<lambda>n. None)\<rparr>
        \<lparr>db = True, dbVersion = Str ''1'', lastInsertRowId = Num 0, debug = False\<rparr>
        (Str ''2'') None
      = \<lparr>thrown = None, trace = [ChangeVersion (Str ''1'') (Str ''2''), Failure],
         handle = \<lparr>db = True, dbVersion = Str ''2'', lastInsertRowId = Num 0, debug = False\<rparr>\<rparr>"
  by (simp add: changeVersion_def host_changeVersion_def getVersion_def Let_def)


lemma isArray_Standalone: "isArray Standalone testIt = Inl (ReferenceError ''it'')"
  by simp

text \<open>A standalone handle always holds a connection.\<close>

lemma create_Standalone_db: "create Standalone name dbg opened = Inr d \<Longrightarrow> db d"
  by (auto simp: create_def split: option.splits)

text \<open>
  C10 (as amended). In the standalone build \<^verbatim>\<open>_isArray\<close> raises a ReferenceError for
  \<^verbatim>\<open>it\<close> on every argument, so \<^verbatim>\<open>setSchema\<close> and \<^verbatim>\<open>insertData\<close> throw on every
  call, before any call into the host; and on a handle with a connection every
  non-empty batch given to \<^verbatim>\<open>queries\<close> raises a ReferenceError for \<^verbatim>\<open>debug\<close> inside
  the transaction callback, whatever the debug flag, so that no statement runs and the
  error callback is called.
\<close>

theorem standalone_undeclared_names:
  "isArray Standalone testIt = Inl (ReferenceError ''it'')
   \<and> setSchema Standalone h d schema opts
       = \<lparr>thrown = Some (ReferenceError ''it''), trace = [], handle = d\<rparr>
   \<and> insertData Standalone h n d tables opts
       = \<lparr>thrown = Some (ReferenceError ''it''), trace = [], handle = d\<rparr>
   \<and> (db d \<and> qs \<noteq> [] \<longrightarrow>
        queries Standalone h n d qs opts
          = \<lparr>thrown = None,
             trace = Transaction # Raised (ReferenceError ''debug'') # Failure
                     # call (onError (getOptions opts None)),
             handle = d\<rparr>)"
proof -
  have "queries_loop Standalone (debug d) qs ([], []) = ([], Inl (ReferenceError ''debug''))" if "qs \<noteq> []"
    using that by (cases qs) simp_all
  then show ?thesis
    by (simp add: setSchema_def insertData_def queries_def queries_with_def)
qed

text \<open>C10, at a batch of one statement.\<close>

theorem standalone_undeclared_names_witness:
  "queries Standalone \<lparr>statement_ok = (\<lambda>n. True), version_ok = True, insertId = (\<lambda>n. None)\<rparr> 0
     \<lparr>db = True, dbVersion = Str ''1'', lastInsertRowId = Num 0, debug = False\<rparr>
     [SqlString ''DELETE FROM t'']
     \<lparr>onSuccess = Some (UserFunction ''done''), onError = Some (UserFunction ''failed''), values'' = None\<rparr>
   = \<lparr>thrown = None,
      trace = [Transaction, Raised (ReferenceError ''debug''), Failure, Call ''failed''],
      handle = \<lparr>db = True, dbVersion = Str ''1'', lastInsertRowId = Num 0, debug = False\<rparr>\<rparr>"
  using standalone_undeclared_names
    [of "Array []" "\<lparr>statement_ok = (\<lambda>n. True), version_ok = True, insertId = (\<lambda>n. None)\<rparr>"
        "\<lparr>db = True, dbVersion = Str ''1'', lastInsertRowId = Num 0, debug = False\<rparr>"
        "Array []"
        "\<lparr>onSuccess = Some (UserFunction ''done''), onError = Some (UserFunction ''failed''), values'' = None\<rparr>"
        0 "Array []" "[SqlString ''DELETE FROM t'']"]
  by (simp add: getOptions_def mixin_def)

text \<open>
  C10 as stated fails for the empty batch: the loop body is never entered, \<^verbatim>\<open>debug\<close> is
  never read, and the transaction goes through without an error.
\<close>

theorem standalone_empty_batch_counterexample:
  "queries Standalone \<lparr>statement_ok = (\<lambda>n. True), version_ok = True, insertId = (\<lambda>n. None)\<rparr> 0
     \<lparr>db = True, dbVersion = Str ''1'', lastInsertRowId = Num 0, debug = True\<rparr>
     []
     \<lparr>onSuccess = Some (UserFunction ''done''), onError = Some (UserFunction ''failed''), values'' = None\<rparr>
   = \<lparr>thrown = None, trace = [Transaction],
      handle = \<lparr>db = True, dbVersion = Str ''1'', lastInsertRowId = Num 0, debug = True\<rparr>\<rparr>"
  by (simp add: queries_def queries_with_def)

section \<open>The statement terminator\<close>

lemma lastIndexOf_last:
  assumes "t \<noteq> []"
  shows "(lastIndexOf t c = int (length t) - 1) = (last t = c)"
proof -
  obtain x xs where r: "rev t = x # xs"
    using assms by (cases "rev t") auto
  then have l: "last t = x" "length t = Suc (length xs)"
    by (metis last_rev hd_rev list.sel(1) rev_rev_ident, metis length_rev length_Cons)
  have "length (dropWhile (\<lambda>y. y \<noteq> c) xs) \<le> length xs"
    by (rule length_dropWhile_le)
  then show ?thesis
    by (auto simp: lastIndexOf_def r l)
qed

lemma trim_nonempty: "\<exists>c\<in>set s. \<not> is_space c \<Longrightarrow> trim s \<noteq> []"
proof -
  assume a: "\<exists>c\<in>set s. \<not> is_space c"
  then have "dropWhile is_space s \<noteq> []"
    by (simp add: dropWhile_eq_Nil_conv)
  then have "\<not> is_space (hd (dropWhile is_space s))"
    by (rule hd_dropWhile)
  moreover have "hd (dropWhile is_space s) \<in> set (rev (dropWhile is_space s))"
    using \<open>dropWhile is_space s \<noteq> []\<close> by simp
  ultimately have "dropWhile is_space (rev (dropWhile is_space s)) \<noteq> []"
    by (auto simp: dropWhile_eq_Nil_conv)
  then show ?thesis by (simp add: trim_def)
qed

lemma query_sql_last: "trim s \<noteq> [] \<Longrightarrow> last (query_sql s) = CHR '';''"
  by (simp add: query_sql_def Let_def lastIndexOf_last)

lemma trim_id:
  assumes "s \<noteq> []" "\<not> is_space (hd s)" "\<not> is_space (last s)"
  shows "trim s = s"
proof -
  have 1: "dropWhile is_space s = s"
    using assms(1,2) by (cases s) simp_all
  have 2: "dropWhile is_space (rev s) = rev s"
    using assms(1,3) by (cases s rule: rev_cases) simp_all
  show ?thesis by (simp add: trim_def 1 2)
qed

lemma query_sql_append:
  assumes "s \<noteq> []" "\<not> is_space (hd s)" "\<not> is_space (last s)" "last s \<noteq> CHR '';''"
  shows "query_sql s = s @ '';''"
  using assms by (simp add: query_sql_def trim_id lastIndexOf_last)

lemma is_space_simps [simp]:
  "\<not> is_space CHR ''I''" "\<not> is_space CHR ''U''" "\<not> is_space CHR ''D''"
  "\<not> is_space CHR ''S''" "\<not> is_space CHR '')''"
  by (simp_all add: is_space_def)

lemma getInsert_sql_ends:
  "sql (getInsert tableName row) \<noteq> [] \<and> hd (sql (getInsert tableName row)) = CHR ''I''
   \<and> last (sql (getInsert tableName row)) = CHR '')''"
  by (cases "keys row = []") (simp_all add: getInsert_empty getInsert_nonempty)

lemma query_sql_eq:
  "query_sql s = (if trim s = [] \<or> last (trim s) = CHR '';'' then trim s else trim s @ '';'')"
proof (cases "trim s = []")
  case True
  then show ?thesis by (simp add: query_sql_def lastIndexOf_def)
next
  case False
  then show ?thesis by (simp add: query_sql_def Let_def lastIndexOf_last)
qed

lemma trim_trailing_blank:
  assumes "s \<noteq> []" "\<not> is_space (hd s)" "\<not> is_space (last s)"
  shows "trim (s @ '' '') = s"
proof -
  have 1: "dropWhile is_space (s @ '' '') = s @ '' ''"
    using assms(1,2) by (cases s) simp_all
  have 2: "dropWhile is_space (rev s) = rev s"
    using assms(1,3) by (cases s rule: rev_cases) simp_all
  show ?thesis by (simp add: trim_def 1 2 is_space_def)
qed

lemma query_sql_trailing_blank:
  assumes "s \<noteq> []" "\<not> is_space (hd s)" "\<not> is_space (last s)" "last s \<noteq> CHR '';''"
  shows "query_sql (s @ '' '') = s @ '';''"
  using assms by (simp add: query_sql_eq trim_trailing_blank)

lemma join_clauses_last:
  "ks \<noteq> [] \<Longrightarrow> join (map (\<lambda>k. k @ '' = ?'') ks) sep \<noteq> []
     \<and> last (join (map (\<lambda>k. k @ '' = ?'') ks) sep) = CHR ''?''"
proof (induction ks)
  case Nil
  then show ?case by simp
next
  case (Cons k ks)
  then show ?case by (cases ks) simp_all
qed

lemma is_space_more [simp]:
  "\<not> is_space CHR ''?''" "\<not> is_space CHR ''E''" "is_space CHR '' ''"
  by (simp_all add: is_space_def)

lemma clause_text_ends:
  assumes "p \<noteq> []" "\<not> is_space (hd p)"
  shows "last (p @ '' WHERE '' @ join (map (\<lambda>k. k @ '' = ?'') ks) '' AND '')
           = (if ks = [] then CHR '' '' else CHR ''?'')"
    and "query_sql (p @ '' WHERE '' @ join (map (\<lambda>k. k @ '' = ?'') ks) '' AND '')
           = (if ks = [] then butlast (p @ '' WHERE '' @ join (map (\<lambda>k. k @ '' = ?'') ks) '' AND '')
              else p @ '' WHERE '' @ join (map (\<lambda>k. k @ '' = ?'') ks) '' AND '') @ '';''"
proof -
  show "last (p @ '' WHERE '' @ join (map (\<lambda>k. k @ '' = ?'') ks) '' AND '')
           = (if ks = [] then CHR '' '' else CHR ''?'')"
    using join_clauses_last [of ks "'' AND ''"] by simp
  show "query_sql (p @ '' WHERE '' @ join (map (\<lambda>k. k @ '' = ?'') ks) '' AND '')
           = (if ks = [] then butlast (p @ '' WHERE '' @ join (map (\<lambda>k. k @ '' = ?'') ks) '' AND '')
              else p @ '' WHERE '' @ join (map (\<lambda>k. k @ '' = ?'') ks) '' AND '') @ '';''"
  proof (cases "ks = []")
    case True
    have "query_sql ((p @ '' WHERE'') @ '' '') = (p @ '' WHERE'') @ '';''"
      using assms by (intro query_sql_trailing_blank) (simp_all add: hd_append)
    moreover have "butlast (p @ '' WHERE '') = p @ '' WHERE''"
      by (simp add: butlast_append)
    ultimately show ?thesis using True by simp
  next
    case False
    let ?s = "p @ '' WHERE '' @ join (map (\<lambda>k. k @ '' = ?'') ks) '' AND ''"
    have "query_sql ?s = ?s @ '';''"
      using assms join_clauses_last [of ks "'' AND ''"] False
      by (intro query_sql_append) (simp_all add: hd_append)
    then show ?thesis using False by simp
  qed
qed


text \<open>
  C9 (as amended). The builders append no terminator: the text of \<^verbatim>\<open>getInsert\<close>
  ends with \<^verbatim>\<open>)\<close>; the text of \<^verbatim>\<open>getUpdate\<close>, of \<^verbatim>\<open>getDelete\<close> and of
  \<^verbatim>\<open>getSelect\<close> with a predicate ends with the \<^verbatim>\<open>?\<close> of the last clause, or with the
  blank of \<^verbatim>\<open>' WHERE '\<close> when the predicate has no key; the text of \<^verbatim>\<open>getSelect\<close>
  without a predicate ends with the table name. \<^verbatim>\<open>query\<close> trims the text and appends
  one \<^verbatim>\<open>;\<close> unless the trimmed text already ends with \<^verbatim>\<open>;\<close> (an empty text stays
  empty). So the text of a builder's statement after \<^verbatim>\<open>query\<close> is
  \<^item> for \<^verbatim>\<open>getInsert\<close>: the builder's text followed by \<^verbatim>\<open>;\<close>;
  \<^item> for \<^verbatim>\<open>getUpdate\<close>, \<^verbatim>\<open>getDelete\<close> and \<^verbatim>\<open>getSelect\<close> with a predicate: the
    builder's text, less its last blank when the predicate has no key, followed by
    \<^verbatim>\<open>;\<close>;
  \<^item> for \<^verbatim>\<open>getSelect\<close> without a predicate: the trimmed text, followed by \<^verbatim>\<open>;\<close>
    unless it already ends with \<^verbatim>\<open>;\<close>, which it does when the table name does;
  in every case it ends with \<^verbatim>\<open>;\<close>, and on a handle with a connection it is the text
  \<^verbatim>\<open>query\<close> gives to the host.
\<close>

theorem query_terminates_statements:
  "last (sql (getInsert tableName row)) = CHR '')''
   \<and> query_sql (sql (getInsert tableName row)) = sql (getInsert tableName row) @ '';''
   \<and> last (sql (getUpdate tableName row w)) = (if keys w = [] then CHR '' '' else CHR ''?'')
   \<and> query_sql (sql (getUpdate tableName row w))
       = (if keys w = [] then butlast (sql (getUpdate tableName row w))
          else sql (getUpdate tableName row w)) @ '';''
   \<and> last (sql (getDelete tableName w)) = (if keys w = [] then CHR '' '' else CHR ''?'')
   \<and> query_sql (sql (getDelete tableName w))
       = (if keys w = [] then butlast (sql (getDelete tableName w))
          else sql (getDelete tableName w)) @ '';''
   \<and> (getSelect v tableName cols (Some w) = Inr q \<longrightarrow>
         last (sql q) = (if keys w = [] then CHR '' '' else CHR ''?'')
         \<and> query_sql (sql q) = (if keys w = [] then butlast (sql q) else sql q) @ '';'')
   \<and> (getSelect v tableName cols None = Inr q \<longrightarrow>
         (\<exists>colStr. sql q = ''SELECT '' @ colStr @ '' FROM '' @ tableName)
         \<and> trim (sql q) \<noteq> []
         \<and> query_sql (sql q)
             = (if last (trim (sql q)) = CHR '';'' then trim (sql q) else trim (sql q) @ '';'')
         \<and> last (query_sql (sql q)) = CHR '';''
         \<and> (tableName \<noteq> [] \<and> last tableName = CHR '';'' \<longrightarrow> query_sql (sql q) = sql q))
   \<and> query_sql s = (if trim s = [] \<or> last (trim s) = CHR '';'' then trim s else trim s @ '';'')
   \<and> (db d \<longrightarrow> ExecuteSql (query_sql (sql q')) (values' q') (statement_ok h 0)
                  \<in> set (trace (query v h d (QueryObject q') opts)))"
proof -
  let ?W = "join (map (\<lambda>k. k @ '' = ?'') (keys w)) '' AND ''"
  have ins: "last (sql (getInsert tableName row)) = CHR '')''"
       "query_sql (sql (getInsert tableName row)) = sql (getInsert tableName row) @ '';''"
    by (simp add: getInsert_sql_ends, rule query_sql_append) (simp_all add: getInsert_sql_ends)
  have u: "sql (getUpdate tableName row w)
             = (''UPDATE '' @ tableName @ '' SET ''
                @ join (map (\<lambda>k. k @ '' = ?'') (keys row)) '', '') @ '' WHERE '' @ ?W"
    by (simp add: getUpdate_eq)
  have upd: "last (sql (getUpdate tableName row w)) = (if keys w = [] then CHR '' '' else CHR ''?'')"
       "query_sql (sql (getUpdate tableName row w))
          = (if keys w = [] then butlast (sql (getUpdate tableName row w))
             else sql (getUpdate tableName row w)) @ '';''"
    unfolding u by (rule clause_text_ends; simp)+
  have dl: "sql (getDelete tableName w) = (''DELETE FROM '' @ tableName) @ '' WHERE '' @ ?W"
    by (simp add: getDelete_eq)
  have del: "last (sql (getDelete tableName w)) = (if keys w = [] then CHR '' '' else CHR ''?'')"
       "query_sql (sql (getDelete tableName w))
          = (if keys w = [] then butlast (sql (getDelete tableName w))
             else sql (getDelete tableName w)) @ '';''"
    unfolding dl by (rule clause_text_ends; simp)+
  have sel: "last (sql q) = (if keys w = [] then CHR '' '' else CHR ''?'')
         \<and> query_sql (sql q) = (if keys w = [] then butlast (sql q) else sql q) @ '';''"
    if "getSelect v tableName cols (Some w) = Inr q"
  proof -
    from that obtain colStr where
      s: "sql q = (''SELECT '' @ colStr @ '' FROM '' @ tableName) @ '' WHERE '' @ ?W"
      by (auto simp: getSelect_eq where_clause_def split: sum.splits)
    show ?thesis unfolding s by (rule conjI; rule clause_text_ends; simp)
  qed
  have sel0: "(\<exists>colStr. sql q = ''SELECT '' @ colStr @ '' FROM '' @ tableName)
         \<and> trim (sql q) \<noteq> []
         \<and> query_sql (sql q)
             = (if last (trim (sql q)) = CHR '';'' then trim (sql q) else trim (sql q) @ '';'')
         \<and> last (query_sql (sql q)) = CHR '';''
         \<and> (tableName \<noteq> [] \<and> last tableName = CHR '';'' \<longrightarrow> query_sql (sql q) = sql q)"
    if "getSelect v tableName cols None = Inr q"
  proof -
    from that obtain colStr where
      s: "sql q = ''SELECT '' @ colStr @ '' FROM '' @ tableName"
      by (auto simp: getSelect_eq where_clause_def split: sum.splits)
    then have t: "trim (sql q) \<noteq> []"
      by (intro trim_nonempty) simp
    have e: "query_sql (sql q) = sql q" if n: "tableName \<noteq> []" "last tableName = CHR '';''"
    proof -
      have l: "last (sql q) = CHR '';''"
        using n by (simp add: s)
      have "trim (sql q) = sql q"
        using n by (intro trim_id) (simp_all add: s is_space_def)
      then show ?thesis using l by (simp add: query_sql_eq)
    qed
    show ?thesis using s t e by (simp add: query_sql_eq)
  qed
  have gen: "query_sql s = (if trim s = [] \<or> last (trim s) = CHR '';'' then trim s else trim s @ '';'')"
    by (rule query_sql_eq)
  have run: "ExecuteSql (query_sql (sql q')) (values' q') (statement_ok h 0)
               \<in> set (trace (query v h d (QueryObject q') opts))" if "db d"
    using that by (simp add: query_def getOptions_def mixin_def Let_def)
  show ?thesis using ins upd del sel sel0 gen run by blast
qed

text \<open>
  C9, at \<^verbatim>\<open>getSelect('t', null, {id: 1})\<close>, which gets its \<^verbatim>\<open>;\<close> from \<^verbatim>\<open>query\<close>,
  and at \<^verbatim>\<open>getSelect('t;', null)\<close>, whose text ends with \<^verbatim>\<open>;\<close> already and is handed
  to the host as it is.
\<close>

theorem query_terminates_statements_witness:
  "getSelect Enyo ''t'' ColumnsNull (Some [(''id'', Num 1)])
     = Inr \<lparr>sql = ''SELECT * FROM t WHERE id = ?'', values' = [Num 1]\<rparr>
   \<and> query_sql ''SELECT * FROM t WHERE id = ?'' = ''SELECT * FROM t WHERE id = ?;''
   \<and> getSelect Enyo ''t;'' ColumnsNull None = Inr \<lparr>sql = ''SELECT * FROM t;'', values' = []\<rparr>
   \<and> query_sql ''SELECT * FROM t;'' = ''SELECT * FROM t;''
   \<and> ExecuteSql (query_sql ''SELECT * FROM t;'') [] True
       \<in> set (trace (query Enyo
                \<lparr>statement_ok = (\<lambda>n. True), version_ok = True, insertId = (\<lambda>n. None)\<rparr>
                \<lparr>db = True, dbVersion = Str ''1'', lastInsertRowId = Num 0, debug = False\<rparr>
                (QueryObject \<lparr>sql = ''SELECT * FROM t;'', values' = []\<rparr>)
                \<lparr>onSuccess = None, onError = None, values'' = None\<rparr>))"
proof -
  have a: "getSelect Enyo ''t'' ColumnsNull (Some [(''id'', Num 1)])
     = Inr \<lparr>sql = ''SELECT * FROM t WHERE id = ?'', values' = [Num 1]\<rparr>"
    by (simp add: getSelect_eq getSelect_colStr_def where_clause_def where_values_def keys_def
          property_def)
  have b: "getSelect Enyo ''t;'' ColumnsNull None = Inr \<lparr>sql = ''SELECT * FROM t;'', values' = []\<rparr>"
    by (simp add: getSelect_eq getSelect_colStr_def where_clause_def where_values_def)
  have c: "trim ''SELECT * FROM t;'' = ''SELECT * FROM t;''"
    by (simp add: trim_def is_space_def)
  have d: "db \<lparr>db = True, dbVersion = Str ''1'', lastInsertRowId = Num 0, debug = False\<rparr>"
    by simp
  have k: "keys [(''id'', Num 1)] \<noteq> []"
    by (simp add: keys_def)
  note t1 = query_terminates_statements
    [where v = Enyo and tableName = "''t''" and cols = ColumnsNull and w = "[(''id'', Num 1)]"
       and q = "\<lparr>sql = ''SELECT * FROM t WHERE id = ?'', values' = [Num 1]\<rparr>"]
  from t1 a have "query_sql (sql \<lparr>sql = ''SELECT * FROM t WHERE id = ?'', values' = [Num 1]\<rparr>)
      = (if keys [(''id'', Num 1)] = []
         then butlast (sql \<lparr>sql = ''SELECT * FROM t WHERE id = ?'', values' = [Num 1]\<rparr>)
         else sql \<lparr>sql = ''SELECT * FROM t WHERE id = ?'', values' = [Num 1]\<rparr>) @ '';''"
    by blast
  then have 1: "query_sql ''SELECT * FROM t WHERE id = ?'' = ''SELECT * FROM t WHERE id = ?;''"
    using k by simp
  note t2 = query_terminates_statements
    [where v = Enyo and tableName = "''t;''" and cols = ColumnsNull
       and q = "\<lparr>sql = ''SELECT * FROM t;'', values' = []\<rparr>"
       and q' = "\<lparr>sql = ''SELECT * FROM t;'', values' = []\<rparr>"
       and d = "\<lparr>db = True, dbVersion = Str ''1'', lastInsertRowId = Num 0, debug = False\<rparr>"
       and h = "\<lparr>statement_ok = (\<lambda>n. True), version_ok = True, insertId = (\<lambda>n. None)\<rparr>"
       and opts = "\<lparr>onSuccess = None, onError = None, values'' = None\<rparr>"]
  from t2 b have "query_sql (sql \<lparr>sql = ''SELECT * FROM t;'', values' = []\<rparr>)
             = (if last (trim (sql \<lparr>sql = ''SELECT * FROM t;'', values' = []\<rparr>)) = CHR '';''
                then trim (sql \<lparr>sql = ''SELECT * FROM t;'', values' = []\<rparr>)
                else trim (sql \<lparr>sql = ''SELECT * FROM t;'', values' = []\<rparr>) @ '';'')"
    by blast
  then have 2: "query_sql ''SELECT * FROM t;'' = ''SELECT * FROM t;''"
    by (simp add: c)
  from t2 d have "ExecuteSql (query_sql (sql \<lparr>sql = ''SELECT * FROM t;'', values' = []\<rparr>))
         (values' \<lparr>sql = ''SELECT * FROM t;'', values' = []\<rparr>)
         (statement_ok \<lparr>statement_ok = (\<lambda>n. True), version_ok = True, insertId = (\<lambda>n. None)\<rparr> 0)
       \<in> set (trace (query Enyo
                \<lparr>statement_ok = (\<lambda>n. True), version_ok = True, insertId = (\<lambda>n. None)\<rparr>
                \<lparr>db = True, dbVersion = Str ''1'', lastInsertRowId = Num 0, debug = False\<rparr>
                (QueryObject \<lparr>sql = ''SELECT * FROM t;'', values' = []\<rparr>)
                \<lparr>onSuccess = None, onError = None, values'' = None\<rparr>))"
    by blast
  then have 3: "ExecuteSql (query_sql ''SELECT * FROM t;'') [] True
       \<in> set (trace (query Enyo
                \<lparr>statement_ok = (\<lambda>n. True), version_ok = True, insertId = (\<lambda>n. None)\<rparr>
                \<lparr>db = True, dbVersion = Str ''1'', lastInsertRowId = Num 0, debug = False\<rparr>
                (QueryObject \<lparr>sql = ''SELECT * FROM t;'', values' = []\<rparr>)
                \<lparr>onSuccess = None, onError = None, values'' = None\<rparr>))"
    by simp
  show ?thesis using a b 1 2 3 by blast
qed

text \<open>
  C9 as stated fails: the builders append no terminator,
  \<^verbatim>\<open>getInsert('t', {a: 1})\<close> returns \<^verbatim>\<open>INSERT INTO t (a) VALUES (?)\<close>.
\<close>

theorem builders_leave_out_terminator_counterexample:
  "sql (getInsert ''t'' [(''a'', Num 1)]) = ''INSERT INTO t (a) VALUES (?)''
   \<and> last (sql (getInsert ''t'' [(''a'', Num 1)])) \<noteq> CHR '';''
   \<and> last (sql (getDelete ''t'' [(''id'', Num 1)])) \<noteq> CHR '';''"
  by (simp add: getInsert_nonempty getDelete_eq keys_def)

section \<open>The connection guard\<close>

lemma db_lost_quiet: "\<not> touches_host (trace (db_lost v d))"
  by (cases v) (simp_all add: db_lost_def touches_host_def)

lemma insertData_rows_eq:
  "insertData_rows tableName rows acc = acc @ map (QueryObject \<circ> getInsert tableName) rows"
  by (induction rows arbitrary: acc) simp_all

lemma isArray_Enyo: "\<exists>b. isArray Enyo x = Inr b"
  by (cases x) auto

lemma no_db:
  assumes "\<not> db d"
  shows "query v h d q opts = db_lost v d"
    and "queries v h n d qs opts = db_lost v d"
    and "queries_with v h n d qs f e = db_lost v d"
  using assms by (simp_all add: query_def queries_def queries_with_def)

lemma insertData_loop_eq:
  "insertData_loop Enyo tds acc = Inr (acc @ map QueryObject (concat (map inserts_of tds)))"
proof (induction tds arbitrary: acc)
  case Nil
  then show ?case by simp
next
  case (Cons td tds)
  obtain tableName rows where td: "td = TableData tableName rows" by (cases td)
  show ?case
  proof (cases rows)
    case None
    then show ?thesis using Cons td by simp
  next
    case (Some r)
    obtain b where "isArray Enyo r = Inr b" using isArray_Enyo by blast
    then show ?thesis using Cons td Some by (simp add: insertData_rows_eq)
  qed
qed

lemma insertData_loop_Enyo_Inr: "\<exists>qs. insertData_loop Enyo tds acc = Inr qs"
  by (simp add: insertData_loop_eq)

text \<open>
  The guard of \<^verbatim>\<open>query\<close> and \<^verbatim>\<open>queries\<close> reads the connection field of the
  handle. On a handle whose field holds no connection object (what the constructor of
  the Enyo build leaves behind when the open fails) no operation calls into the host:
  \<^verbatim>\<open>query\<close> and \<^verbatim>\<open>queries\<close> take the branch of \<^verbatim>\<open>_db_lost\<close>, \<^verbatim>\<open>setSchema\<close> and
  \<^verbatim>\<open>insertData\<close> end there as well, and \<^verbatim>\<open>changeVersion\<close> and
  \<^verbatim>\<open>changeVersionWithSchema\<close>, which have no guard, fail on the missing object.
\<close>

lemma absent_connection_never_reaches_host:
  assumes "\<not> db d"
  shows "\<not> touches_host (trace (query v h d q opts))
       \<and> \<not> touches_host (trace (queries v h n d qs opts))
       \<and> \<not> touches_host (trace (setSchema v h d schema opts))
       \<and> \<not> touches_host (trace (insertData v h n d tables opts))
       \<and> \<not> touches_host (trace (changeVersion v h d newVersion second))
       \<and> \<not> touches_host (trace (changeVersionWithSchema v h d newVersion schema opts))
       \<and> thrown (query Standalone h d q opts)
           = Some (Error ''Database: connection has been closed or lost; cannot execute SQL'')
       \<and> thrown (queries Standalone h n d qs opts)
           = Some (Error ''Database: connection has been closed or lost; cannot execute SQL'')
       \<and> query Enyo h d q opts
           = \<lparr>thrown = None,
              trace = [Log ''Database: connection has been closed or lost; cannot execute SQL''],
              handle = d\<rparr>
       \<and> queries Enyo h n d qs opts
           = \<lparr>thrown = None,
              trace = [Log ''Database: connection has been closed or lost; cannot execute SQL''],
              handle = d\<rparr>
       \<and> thrown (changeVersion v h d newVersion second) = Some (TypeError ''changeVersion'')
       \<and> thrown (changeVersionWithSchema Enyo h d newVersion schema opts)
           = Some (TypeError ''changeVersion'')"
proof -
  note q = no_db [OF assms]
  have s: "\<not> touches_host (trace (setSchema v h d schema opts))"
  proof (cases v)
    case Standalone
    then show ?thesis by (simp add: setSchema_def touches_host_def)
  next
    case Enyo
    obtain b where "isArray Enyo schema = Inr b" using isArray_Enyo by blast
    then show ?thesis using Enyo
      by (simp add: setSchema_def q db_lost_quiet Let_def split: prod.splits)
  qed
  have i: "\<not> touches_host (trace (insertData v h n d tables opts))"
  proof (cases v)
    case Standalone
    then show ?thesis by (simp add: insertData_def touches_host_def)
  next
    case Enyo
    obtain dq where "insertData_loop Enyo (as_array tables) [] = Inr dq"
      using insertData_loop_Enyo_Inr by blast
    then show ?thesis using Enyo
      by (cases tables) (simp_all add: insertData_def q db_lost_quiet)
  qed
  have c: "changeVersion v h d newVersion second
             = \<lparr>thrown = Some (TypeError ''changeVersion''), trace = [], handle = d\<rparr>"
    using assms by (simp add: changeVersion_def Let_def)
  have w: "\<not> touches_host (trace (changeVersionWithSchema v h d newVersion schema opts))"
    using assms by (cases v; cases schema) (simp_all add: changeVersionWithSchema_def touches_host_def)
  have w': "thrown (changeVersionWithSchema Enyo h d newVersion schema opts)
           = Some (TypeError ''changeVersion'')"
    using assms by (cases schema) (simp_all add: changeVersionWithSchema_def)
  show ?thesis
    using s i w w' by (simp add: q c db_lost_quiet) (simp add: db_lost_def touches_host_def)
qed

text \<open>The handle an Enyo component is left with when the open fails.\<close>

lemma absent_connection_after_failed_open:
  "create Enyo ''notes'' False None
     = Inr \<lparr>db = False, dbVersion = Null, lastInsertRowId = Num 0, debug = False\<rparr>
   \<and> \<not> touches_host (trace (query Enyo
        \<lparr>statement_ok = (\<lambda>n. True), version_ok = True, insertId = (\<lambda>n. None)\<rparr>
        \<lparr>db = False, dbVersion = Null, lastInsertRowId = Num 0, debug = False\<rparr>
        (SqlString ''SELECT 1'') \<lparr>onSuccess = None, onError = None, values'' = None\<rparr>))
   \<and> thrown (queries Standalone
        \<lparr>statement_ok = (\<lambda>n. True), version_ok = True, insertId = (\<lambda>n. None)\<rparr> 0
        \<lparr>db = False, dbVersion = Null, lastInsertRowId = Num 0, debug = False\<rparr>
        [SqlString ''SELECT 1''] \<lparr>onSuccess = None, onError = None, values'' = None\<rparr>)
      = Some (Error ''Database: connection has been closed or lost; cannot execute SQL'')"
proof -
  have absent: "\<not> db \<lparr>db = False, dbVersion = Null, lastInsertRowId = Num 0, debug = False\<rparr>"
    by simp
  have failed_open: "create Enyo ''notes'' False None
     = Inr \<lparr>db = False, dbVersion = Null, lastInsertRowId = Num 0, debug = False\<rparr>"
    by (simp add: create_def)
  from failed_open absent_connection_never_reaches_host [OF absent,
        of Enyo "\<lparr>statement_ok = (\<lambda>n. True), version_ok = True, insertId = (\<lambda>n. None)\<rparr>"
           "SqlString ''SELECT 1''" "\<lparr>onSuccess = None, onError = None, values'' = None\<rparr>"
           0 "[SqlString ''SELECT 1'']"]
  show ?thesis by blast
qed

text \<open>
  C7. The claim fails on the code: \<^verbatim>\<open>close\<close> calls \<^verbatim>\<open>close()\<close> on the connection
  object and leaves the connection field of the handle as it is. The guard of
  \<^verbatim>\<open>query\<close> and \<^verbatim>\<open>queries\<close>, written for this case (\<^verbatim>\<open>Possible that the user
  closed the connection already, so double check\<close>), reads that field and so passes:
  after \<^verbatim>\<open>close()\<close>, \<^verbatim>\<open>query('SELECT 1')\<close> opens a transaction on the host and
  executes the statement, and \<^verbatim>\<open>changeVersion('2')\<close>, which has no guard, calls the host
  and sets the cached version. No call fails with the message of \<^verbatim>\<open>_db_lost\<close>.
\<close>

theorem closed_handle_reaches_host:
  "handle (close \<lparr>db = True, dbVersion = Str ''1'', lastInsertRowId = Num 0, debug = False\<rparr>)
     = \<lparr>db = True, dbVersion = Str ''1'', lastInsertRowId = Num 0, debug = False\<rparr>
   \<and> query Standalone
        \<lparr>statement_ok = (\<lambda>n. True), version_ok = True, insertId = (\<lambda>n. None)\<rparr>
        (handle (close \<lparr>db = True, dbVersion = Str ''1'', lastInsertRowId = Num 0, debug = False\<rparr>))
        (SqlString ''SELECT 1'') \<lparr>onSuccess = None, onError = None, values'' = None\<rparr>
     = \<lparr>thrown = None,
        trace = [Transaction, ExecuteSql ''SELECT 1;'' [] True, Success],
        handle = \<lparr>db = True, dbVersion = Str ''1'', lastInsertRowId = Num 0, debug = False\<rparr>\<rparr>
   \<and> changeVersion Enyo
        \<lparr>statement_ok = (\<lambda>n. True), version_ok = True, insertId = (\<lambda>n. None)\<rparr>
        (handle (close \<lparr>db = True, dbVersion = Str ''1'', lastInsertRowId = Num 0, debug = False\<rparr>))
        (Str ''2'') None
     = \<lparr>thrown = None,
        trace = [ChangeVersion (Str ''1'') (Str ''2''), Success],
        handle = \<lparr>db = True, dbVersion = Str ''2'', lastInsertRowId = Num 0, debug = False\<rparr>\<rparr>"
  by (simp add: close_def query_def changeVersion_def host_changeVersion_def getOptions_def mixin_def
        query_sql_def trim_def lastIndexOf_def is_space_def Let_def)


section \<open>setSchema: structure before data\<close>

lemma setSchema_loop_eq:
  "setSchema_loop plan (tq, dt)
     = (tq @ structure_statements plan, dt @ concat (map table_data_of plan))"
proof (induction plan arbitrary: tq dt)
  case Nil
  then show ?case by (simp add: structure_statements_def)
next
  case (Cons item plan)
  show ?case
  proof (cases item)
    case (SqlItem s)
    then show ?thesis using Cons by (simp add: structure_statements_def)
  next
    case (TableObject tableName cs rows)
    then show ?thesis using Cons
      by (cases cs; cases rows) (simp_all add: structure_statements_def)
  qed
qed

lemma inserts_of_table_data:
  "concat (map inserts_of (concat (map table_data_of plan))) = data_statements plan"
proof (induction plan)
  case Nil
  then show ?case by (simp add: data_statements_def)
next
  case (Cons item plan)
  then show ?case
    by (cases item rule: table_data_of.cases) (simp_all add: data_statements_def)
qed

lemma table_data_nonempty:
  "(concat (map table_data_of plan) \<noteq> []) = list_ex carries_data plan"
proof (induction plan)
  case Nil
  then show ?case by simp
next
  case (Cons item plan)
  then show ?case by (cases item rule: table_data_of.cases) simp_all
qed

lemma quiet_append [simp]: "quiet (xs @ ys) = quiet xs @ quiet ys"
  by (simp add: quiet_def)

lemma quiet_Cons [simp]: "quiet (e # es) = (if is_echo e then quiet es else e # quiet es)"
  by (simp add: quiet_def)

lemma quiet_Nil [simp]: "quiet [] = []"
  by (simp add: quiet_def)

lemma quiet_call [simp]: "quiet (call cb) = call cb"
  by (cases cb rule: call.cases) simp_all

lemma quiet_run_statements: "run_statements h n queue = (evs, ok) \<Longrightarrow> quiet evs = evs"
  by (induction h n queue arbitrary: evs ok rule: run_statements.induct)
     (auto split: prod.splits if_splits)

lemma queries_loop_strings:
  "\<exists>logs. queries_loop Enyo dbg (map SqlString S) (s0, vs) = (logs, Inr (map (\<lambda>s. (s, vs)) S))
         \<and> quiet logs = []"
proof (induction S arbitrary: s0)
  case Nil
  then show ?case by simp
next
  case (Cons s S)
  from Cons [of s] obtain logs where
    "queries_loop Enyo dbg (map SqlString S) (s, vs) = (logs, Inr (map (\<lambda>s. (s, vs)) S))"
    "quiet logs = []" by blast
  then show ?case by simp
qed

lemma queries_loop_objects:
  "\<exists>logs. queries_loop Enyo dbg (map QueryObject D) st
             = (logs, Inr (map (\<lambda>q. (sql q, values' q)) D))
         \<and> quiet logs = []"
proof (induction D arbitrary: st)
  case Nil
  then show ?case by simp
next
  case (Cons q D)
  obtain s0 vs0 where st: "st = (s0, vs0)" by (cases st)
  from Cons [of "(sql q, values' q)"] obtain logs where
    "queries_loop Enyo dbg (map QueryObject D) (sql q, values' q)
       = (logs, Inr (map (\<lambda>q. (sql q, values' q)) D))"
    "quiet logs = []" by blast
  then show ?case by (simp add: st)
qed

lemma run_statements_all_ok:
  "(\<forall>i<length queue. statement_ok h (n + i))
   \<Longrightarrow> run_statements h n queue = (map (\<lambda>(s, vs). ExecuteSql s vs True) queue, True)"
proof (induction queue arbitrary: n)
  case Nil
  then show ?case by simp
next
  case (Cons q queue)
  obtain s vs where q: "q = (s, vs)" by (cases q)
  have "statement_ok h n" using Cons.prems by force
  moreover have "\<forall>i<length queue. statement_ok h (Suc n + i)"
    using Cons.prems by force
  ultimately show ?case using Cons.IH [of "Suc n"] by (simp add: q)
qed

lemma run_statements_first_failure:
  "k < length queue \<Longrightarrow> (\<forall>i<k. statement_ok h (n + i)) \<Longrightarrow> \<not> statement_ok h (n + k)
   \<Longrightarrow> run_statements h n queue
       = (map (\<lambda>(s, vs). ExecuteSql s vs True) (take k queue)
          @ [ExecuteSql (fst (queue ! k)) (snd (queue ! k)) False], False)"
proof (induction queue arbitrary: n k)
  case Nil
  then show ?case by simp
next
  case (Cons q queue)
  obtain s vs where q: "q = (s, vs)" by (cases q)
  show ?case
  proof (cases k)
    case 0
    then show ?thesis using Cons.prems by (simp add: q)
  next
    case (Suc j)
    have "statement_ok h n" using Cons.prems Suc by force
    moreover have "j < length queue" using Cons.prems Suc by simp
    moreover have "\<forall>i<j. statement_ok h (Suc n + i)" using Cons.prems Suc by force
    moreover have "\<not> statement_ok h (Suc n + j)" using Cons.prems Suc by simp
    ultimately show ?thesis using Cons.IH [of j "Suc n"] Suc by (simp add: q)
  qed
qed

lemma getOptions_idem: "getOptions (getOptions opts None) None = getOptions opts None"
  by (simp add: getOptions_def mixin_def Let_def split: option.splits)

lemma queries_with_trace:
  assumes "db d"
      and "queries_loop Enyo (debug d) qs ([], []) = (logs, Inr queue)"
      and "quiet logs = []"
  shows "quiet (trace (queries_with Enyo h n d qs f e))
           = Transaction # fst (run_statements h n queue)
             @ (if \<not> snd (run_statements h n queue) then Failure # call e
                else if queue = [] then []
                else Success # quiet (f (n + length queue)))"
proof -
  obtain evs ok where r: "run_statements h n queue = (evs, ok)"
    by (cases "run_statements h n queue")
  then have "quiet evs = evs" by (rule quiet_run_statements)
  then show ?thesis using assms r by (simp add: queries_with_def)
qed

lemma insertData_trace:
  assumes "db d"
  shows "quiet (trace (insertData Enyo h n d (Array tds) opts))
           = quiet (trace (queries Enyo h n d
                      (map QueryObject (concat (map inserts_of tds))) (getOptions opts None)))
         \<and> thrown (insertData Enyo h n d (Array tds) opts) = None"
  using assms insertData_loop_eq [of tds "[]"]
  by (simp add: insertData_def queries_def queries_with_def Let_def)

lemma queries_trace:
  assumes "db d"
      and "queries_loop Enyo (debug d) qs ([], []) = (logs, Inr queue)"
      and "quiet logs = []"
  shows "quiet (trace (queries Enyo h n d qs (getOptions opts None)))
           = Transaction # fst (run_statements h n queue)
             @ (if \<not> snd (run_statements h n queue)
                then Failure # call (onError (getOptions opts None))
                else if queue = [] then []
                else Success # call (onSuccess (getOptions opts None)))"
  by (simp add: queries_def Let_def getOptions_idem queries_with_trace [OF assms])

lemma dataInsertFollowup_trace:
  assumes "db d"
  shows "quiet (dataInsertFollowup Enyo h d tds (getOptions opts None) n)
           = Transaction
             # fst (run_statements h n (map (\<lambda>q. (sql q, values' q)) (concat (map inserts_of tds))))
             @ (if \<not> snd (run_statements h n
                            (map (\<lambda>q. (sql q, values' q)) (concat (map inserts_of tds))))
                then Failure # call (onError (getOptions opts None))
                else if concat (map inserts_of tds) = [] then []
                else Success # call (onSuccess (getOptions opts None)))"
proof -
  obtain logs where l:
    "queries_loop Enyo (debug d) (map QueryObject (concat (map inserts_of tds))) ([], [])
       = (logs, Inr (map (\<lambda>q. (sql q, values' q)) (concat (map inserts_of tds))))"
    "quiet logs = []"
    using queries_loop_objects by blast
  have "quiet (dataInsertFollowup Enyo h d tds (getOptions opts None) n)
          = quiet (trace (queries Enyo h n d (map QueryObject (concat (map inserts_of tds)))
                            (getOptions opts None)))"
    using insertData_trace [OF assms, of h n tds "getOptions opts None"]
    by (simp add: dataInsertFollowup_def Let_def getOptions_idem)
  also have "\<dots> = Transaction
             # fst (run_statements h n (map (\<lambda>q. (sql q, values' q)) (concat (map inserts_of tds))))
             @ (if \<not> snd (run_statements h n
                            (map (\<lambda>q. (sql q, values' q)) (concat (map inserts_of tds))))
                then Failure # call (onError (getOptions opts None))
                else if concat (map inserts_of tds) = [] then []
                else Success # call (onSuccess (getOptions opts None)))"
    using queries_trace [OF assms l] by simp
  finally show ?thesis .
qed

lemma setSchema_trace:
  assumes "db d"
  shows "quiet (trace (setSchema Enyo h d schema opts)) =
     Transaction
     # fst (run_statements h 0 (map (\<lambda>s. (s, [])) (structure_statements (as_array schema))))
     @ (if \<not> snd (run_statements h 0
                    (map (\<lambda>s. (s, [])) (structure_statements (as_array schema))))
        then Failure # call (onError (getOptions opts None))
        else if structure_statements (as_array schema) = [] then []
        else if list_ex carries_data (as_array schema)
        then Success # Transaction
             # fst (run_statements h (length (structure_statements (as_array schema)))
                      (map (\<lambda>q. (sql q, values' q)) (data_statements (as_array schema))))
             @ (if \<not> snd (run_statements h (length (structure_statements (as_array schema)))
                            (map (\<lambda>q. (sql q, values' q)) (data_statements (as_array schema))))
                then Failure # call (onError (getOptions opts None))
                else if data_statements (as_array schema) = [] then []
                else Success # call (onSuccess (getOptions opts None)))
        else Success # call (onSuccess (getOptions opts None)))"
proof -
  let ?S = "structure_statements (as_array schema)"
  let ?T = "concat (map table_data_of (as_array schema))"
  obtain b where a: "isArray Enyo schema = Inr b" using isArray_Enyo by blast
  have loop: "setSchema_loop (as_array schema) ([], []) = (?S, ?T)"
    by (simp add: setSchema_loop_eq)
  obtain logs where l:
    "queries_loop Enyo (debug d) (map SqlString ?S) ([], []) = (logs, Inr (map (\<lambda>s. (s, [])) ?S))"
    "quiet logs = []"
    using queries_loop_strings by blast
  show ?thesis
  proof (cases "?T = []")
    case True
    then have "\<not> list_ex carries_data (as_array schema)"
      using table_data_nonempty [of "as_array schema"] by simp
    moreover have "setSchema Enyo h d schema opts
            = queries Enyo h 0 d (map SqlString ?S) (getOptions opts None)"
      using True by (simp add: setSchema_def a loop Let_def)
    ultimately show ?thesis
      using queries_trace [OF assms l, of h 0 opts] by simp
  next
    case False
    then have c: "list_ex carries_data (as_array schema)"
      using table_data_nonempty [of "as_array schema"] by simp
    have "setSchema Enyo h d schema opts
            = queries_with Enyo h 0 d (map SqlString ?S)
                (dataInsertFollowup Enyo h d ?T (getOptions opts None))
                (onError (getOptions opts None))"
      using False by (simp add: setSchema_def a loop Let_def)
    then show ?thesis
      using queries_with_trace [OF assms l, of h 0
              "dataInsertFollowup Enyo h d ?T (getOptions opts None)"
              "onError (getOptions opts None)"]
            dataInsertFollowup_trace [OF assms, of h ?T opts "length ?S"] c
      by (simp add: inserts_of_table_data)
  qed
qed

lemma statements_append [simp]: "statements (xs @ ys) = statements xs @ statements ys"
  by (induction xs rule: statements.induct) simp_all

lemma statements_call [simp]: "statements (call cb) = []"
  by (cases cb rule: call.cases) simp_all

lemma statements_run:
  "run_statements h n queue = (evs, ok) \<Longrightarrow> \<exists>m\<le>length queue. statements evs = take m queue"
proof (induction queue arbitrary: n evs ok)
  case Nil
  then show ?case by simp
next
  case (Cons q queue)
  obtain s vs where q: "q = (s, vs)" by (cases q)
  show ?case
  proof (cases "statement_ok h n")
    case True
    obtain evs' ok' where r: "run_statements h (Suc n) queue = (evs', ok')"
      by (cases "run_statements h (Suc n) queue")
    then obtain m where m: "m \<le> length queue" "statements evs' = take m queue"
      using Cons.IH by blast
    have "evs = ExecuteSql s vs True # evs'"
      using Cons.prems True r by (simp add: q)
    then have "statements evs = take (Suc m) (q # queue)"
      using m by (simp add: q)
    then show ?thesis using m(1) by (intro exI [of _ "Suc m"]) simp
  next
    case False
    then have "evs = [ExecuteSql s vs False]"
      using Cons.prems by (simp add: q)
    then have "statements evs = take 1 (q # queue)" by (simp add: q)
    then show ?thesis by (intro exI [of _ 1]) simp
  qed
qed

text \<open>
  The order of the two batches in the Enyo build, on a handle with a connection and for
  a plan that has a structure statement, with \<open>S\<close> the structure statements and \<open>D\<close> the
  data statements of the schema (echo of the debug flag left out):
  \<^item> when the host accepts every statement, the trace is one transaction running \<open>S\<close> in
    plan order, the report of success, a second transaction running \<open>D\<close> in order, and
    the caller's success callback;
  \<^item> when \<open>k\<close> is the first structure statement the host rejects, the trace is the one
    transaction up to that statement, the report of failure and the caller's error
    callback: no second transaction, no INSERT;
  \<^item> whenever the structure batch succeeds and a table object carries data, the second
    transaction starts after the report of success and runs nothing but the statements
    of \<open>D\<close>, in order.
  In the standalone build \<^verbatim>\<open>setSchema\<close> throws before any statement is issued.
\<close>

lemma setSchema_structure_before_data:
  fixes schema :: "schema_item one_or_array" and opts :: options
  assumes "db d"
  defines "plan \<equiv> as_array schema"
      and "S \<equiv> structure_statements (as_array schema)"
      and "D \<equiv> data_statements (as_array schema)"
      and "o' \<equiv> getOptions opts None"
  shows "(S \<noteq> [] \<and> D \<noteq> [] \<and> (\<forall>i < length S + length D. statement_ok h i) \<longrightarrow>
           quiet (trace (setSchema Enyo h d schema opts))
             = Transaction # map (\<lambda>s. ExecuteSql s [] True) S
               @ Success # Transaction # map (\<lambda>q. ExecuteSql (sql q) (values' q) True) D
               @ Success # call (onSuccess o'))
       \<and> (k < length S \<and> (\<forall>i<k. statement_ok h i) \<and> \<not> statement_ok h k \<longrightarrow>
           quiet (trace (setSchema Enyo h d schema opts))
             = Transaction # map (\<lambda>s. ExecuteSql s [] True) (take k S)
               @ ExecuteSql (S ! k) [] False # Failure # call (onError o'))
       \<and> (S \<noteq> [] \<and> list_ex carries_data plan \<and> (\<forall>i < length S. statement_ok h i) \<longrightarrow>
           (\<exists>batch m. quiet (trace (setSchema Enyo h d schema opts))
                        = Transaction # map (\<lambda>s. ExecuteSql s [] True) S
                          @ Success # Transaction # batch
                    \<and> m \<le> length D
                    \<and> statements batch = take m (map (\<lambda>q. (sql q, values' q)) D)))
       \<and> trace (setSchema Standalone h d schema opts) = []"
proof -
  let ?Q = "map (\<lambda>s. (s, [])) S"
  let ?I = "map (\<lambda>q. (sql q, values' q)) D"
  note tr = setSchema_trace [OF assms(1), of h schema opts, folded S_def D_def o'_def plan_def]
  have all: "quiet (trace (setSchema Enyo h d schema opts))
             = Transaction # map (\<lambda>s. ExecuteSql s [] True) S
               @ Success # Transaction # map (\<lambda>q. ExecuteSql (sql q) (values' q) True) D
               @ Success # call (onSuccess o')"
    if "S \<noteq> []" "D \<noteq> []" "\<forall>i < length S + length D. statement_ok h i"
  proof -
    have 1: "run_statements h 0 ?Q = (map (\<lambda>(s, vs). ExecuteSql s vs True) ?Q, True)"
      using that(3) by (intro run_statements_all_ok) simp
    have 2: "run_statements h (length S) ?I = (map (\<lambda>(s, vs). ExecuteSql s vs True) ?I, True)"
      using that(3) by (intro run_statements_all_ok) simp
    have 3: "list_ex carries_data plan"
    proof (rule ccontr)
      assume "\<not> list_ex carries_data plan"
      then have e: "concat (map table_data_of (as_array schema)) = []"
        using table_data_nonempty [of "as_array schema"] by (simp add: plan_def)
      have "D = concat (map inserts_of (concat (map table_data_of (as_array schema))))"
        by (simp only: inserts_of_table_data D_def)
      then have "D = []" by (simp only: e list.map concat.simps)
      then show False using that(2) by simp
    qed
    show ?thesis using that(1,2) 3 by (simp add: tr 1 2 comp_def)
  qed
  have fail: "quiet (trace (setSchema Enyo h d schema opts))
             = Transaction # map (\<lambda>s. ExecuteSql s [] True) (take k S)
               @ ExecuteSql (S ! k) [] False # Failure # call (onError o')"
    if "k < length S" "\<forall>i<k. statement_ok h i" "\<not> statement_ok h k"
  proof -
    have "run_statements h 0 ?Q
            = (map (\<lambda>(s, vs). ExecuteSql s vs True) (take k ?Q)
               @ [ExecuteSql (fst (?Q ! k)) (snd (?Q ! k)) False], False)"
      using run_statements_first_failure [of k ?Q h 0] that by simp
    then show ?thesis using that(1) by (simp add: tr take_map comp_def)
  qed
  have second: "\<exists>batch m. quiet (trace (setSchema Enyo h d schema opts))
                        = Transaction # map (\<lambda>s. ExecuteSql s [] True) S
                          @ Success # Transaction # batch
                    \<and> m \<le> length D
                    \<and> statements batch = take m (map (\<lambda>q. (sql q, values' q)) D)"
    if "S \<noteq> []" "list_ex carries_data plan" "\<forall>i < length S. statement_ok h i"
  proof -
    have 1: "run_statements h 0 ?Q = (map (\<lambda>(s, vs). ExecuteSql s vs True) ?Q, True)"
      using that(3) by (intro run_statements_all_ok) simp
    obtain evs ok where r: "run_statements h (length S) ?I = (evs, ok)"
      by (cases "run_statements h (length S) ?I")
    then obtain m where m: "m \<le> length ?I" "statements evs = take m ?I"
      using statements_run by blast
    let ?batch = "evs @ (if \<not> ok then Failure # call (onError o')
                         else if D = [] then [] else Success # call (onSuccess o'))"
    have "quiet (trace (setSchema Enyo h d schema opts))
            = Transaction # map (\<lambda>s. ExecuteSql s [] True) S @ Success # Transaction # ?batch"
      using that(1,2) by (simp add: tr 1 r comp_def)
    moreover have "statements ?batch = take m ?I"
      using m(2) by simp
    ultimately show ?thesis using m(1) by (intro exI [of _ ?batch] exI [of _ m]) simp
  qed
  have sa: "trace (setSchema Standalone h d schema opts) = []"
    by (simp add: setSchema_def)
  show ?thesis using all fail second sa by blast
qed

text \<open>
  The plan \<^verbatim>\<open>[{table: 't', columns: [{column: 'id', type: 'INTEGER'}]},
  {table: 't', data: [{id: 1}, {id: 2}]}]\<close>: one structure statement, then two INSERTs;
  and nothing after the structure statement when the host rejects it.
\<close>

lemma setSchema_structure_then_data_example:
  "quiet (trace (setSchema Enyo
        \<lparr>statement_ok = (\<lambda>n. True), version_ok = True, insertId = (\<lambda>n. None)\<rparr>
        \<lparr>db = True, dbVersion = Str ''1'', lastInsertRowId = Num 0, debug = True\<rparr>
        (Array [TableObject ''t'' (Some [\<lparr>column = ''id'', type = ''INTEGER'', constraints = None\<rparr>]) None,
                TableObject ''t'' None (Some (Array [[(''id'', Num 1)], [(''id'', Num 2)]]))])
        \<lparr>onSuccess = Some (UserFunction ''done''), onError = Some (UserFunction ''failed''),
         values'' = None\<rparr>))
     = [Transaction, ExecuteSql ''CREATE TABLE IF NOT EXISTS t (id INTEGER)'' [] True, Success,
        Transaction, ExecuteSql ''INSERT INTO t (id) VALUES (?)'' [Num 1] True,
        ExecuteSql ''INSERT INTO t (id) VALUES (?)'' [Num 2] True, Success, Call ''done'']
   \<and> quiet (trace (setSchema Enyo
        \<lparr>statement_ok = (\<lambda>n. False), version_ok = True, insertId = (\<lambda>n. None)\<rparr>
        \<lparr>db = True, dbVersion = Str ''1'', lastInsertRowId = Num 0, debug = True\<rparr>
        (Array [TableObject ''t'' (Some [\<lparr>column = ''id'', type = ''INTEGER'', constraints = None\<rparr>]) None,
                TableObject ''t'' None (Some (Array [[(''id'', Num 1)], [(''id'', Num 2)]]))])
        \<lparr>onSuccess = Some (UserFunction ''done''), onError = Some (UserFunction ''failed''),
         values'' = None\<rparr>))
     = [Transaction, ExecuteSql ''CREATE TABLE IF NOT EXISTS t (id INTEGER)'' [] False, Failure,
        Call ''failed'']"
proof -
  have present: "db \<lparr>db = True, dbVersion = Str ''1'', lastInsertRowId = Num 0, debug = True\<rparr>"
    by simp
  note run = setSchema_structure_before_data [OF present,
      where schema = "Array [TableObject ''t'' (Some [\<lparr>column = ''id'', type = ''INTEGER'', constraints = None\<rparr>]) None,
                TableObject ''t'' None (Some (Array [[(''id'', Num 1)], [(''id'', Num 2)]]))]"
        and opts = "\<lparr>onSuccess = Some (UserFunction ''done''), onError = Some (UserFunction ''failed''),
         values'' = None\<rparr>"
        and k = 0]
  show ?thesis
    using run [where h = "\<lparr>statement_ok = (\<lambda>n. True), version_ok = True, insertId = (\<lambda>n. None)\<rparr>"]
          run [where h = "\<lparr>statement_ok = (\<lambda>n. False), version_ok = True, insertId = (\<lambda>n. None)\<rparr>"]
    by (simp add: structure_statements_def data_statements_def getCreateTable_def colDef_def
          getInsert_nonempty keys_def property_def getOptions_def mixin_def Let_def)
qed

text \<open>
  C2. The claim fails on the code in two ways.
  \<^item> A plan that carries data and no structure, which the comment of \<^verbatim>\<open>setSchema\<close> allows
    (\<^verbatim>\<open>you can use setSchema to define the table schema, populate with data, or
    both\<close>): \<^verbatim>\<open>setSchema([{table: 't', data: [{id: 1}, {id: 2}]}])\<close> has two INSERTs to
    run. The Enyo build hands \<^verbatim>\<open>insertData\<close> to \<^verbatim>\<open>queries\<close> as the success callback of
    the last structure statement; with no structure statement the transaction opens,
    executes nothing and the callback is never attached, so whatever the host does the
    trace ends with the empty transaction: no INSERT is issued and neither callback is
    called. (\<^verbatim>\<open>queries\<close> of the Mojo build passes \<^verbatim>\<open>onSuccess\<close> as the success callback
    of the transaction, which an empty transaction reaches.)
  \<^item> In the standalone build \<^verbatim>\<open>setSchema\<close> throws the ReferenceError of \<^verbatim>\<open>_isArray\<close>
    on every plan, here one with a table and two rows: neither batch runs, and the
    failure is an exception, not a call of the caller's error callback.
\<close>

theorem setSchema_data_only_never_inserts:
  "data_statements [TableObject ''t'' None (Some (Array [[(''id'', Num 1)], [(''id'', Num 2)]]))]
     = [\<lparr>sql = ''INSERT INTO t (id) VALUES (?)'', values' = [Num 1]\<rparr>,
        \<lparr>sql = ''INSERT INTO t (id) VALUES (?)'', values' = [Num 2]\<rparr>]
   \<and> setSchema Enyo h
        \<lparr>db = True, dbVersion = Str ''1'', lastInsertRowId = Num 0, debug = False\<rparr>
        (Array [TableObject ''t'' None (Some (Array [[(''id'', Num 1)], [(''id'', Num 2)]]))])
        opts
     = \<lparr>thrown = None, trace = [Transaction],
        handle = \<lparr>db = True, dbVersion = Str ''1'', lastInsertRowId = Num 0, debug = False\<rparr>\<rparr>
   \<and> setSchema Standalone h
        \<lparr>db = True, dbVersion = Str ''1'', lastInsertRowId = Num 0, debug = False\<rparr>
        (Array [TableObject ''t'' (Some [\<lparr>column = ''id'', type = ''INTEGER'', constraints = None\<rparr>])
                  (Some (Array [[(''id'', Num 1)], [(''id'', Num 2)]]))])
        opts
     = \<lparr>thrown = Some (ReferenceError ''it''), trace = [],
        handle = \<lparr>db = True, dbVersion = Str ''1'', lastInsertRowId = Num 0, debug = False\<rparr>\<rparr>"
  by (simp add: data_statements_def setSchema_def queries_with_def getOptions_def mixin_def
        getInsert_nonempty keys_def property_def Let_def)

section \<open>changeVersionWithSchema: the cached version\<close>

lemma run_statements_events:
  "e \<in> set (fst (run_statements h n queue)) \<Longrightarrow> \<exists>s vs ok. e = ExecuteSql s vs ok"
  by (induction h n queue arbitrary: e rule: run_statements.induct)
     (auto split: if_splits prod.splits)

lemma changeVersionWithSchema_loop_logs:
  "e \<in> set (fst (changeVersionWithSchema_loop dbg items q0)) \<Longrightarrow> \<exists>s vs. e = Debug s vs"
  by (induction dbg items q0 arbitrary: e rule: changeVersionWithSchema_loop.induct)
     (auto simp: Let_def split: if_splits prod.splits option.splits sum.splits schema_item.splits)

lemma host_changeVersion_events:
  assumes "\<And>e. e \<in> set (fst body) \<Longrightarrow> \<exists>s vs. e = Debug s vs"
  shows "Success \<notin> set (fst (host_changeVersion h body)) \<and> Failure \<notin> set (fst (host_changeVersion h body))"
proof -
  obtain logs res where b: "body = (logs, res)" by (cases body)
  have l: "Success \<notin> set logs" "Failure \<notin> set logs"
    using assms b by fastforce+
  have r: "Success \<notin> set evs \<and> Failure \<notin> set evs"
    if "run_statements h 0 queue = (evs, ok)" for queue evs ok
    using run_statements_events [of _ h 0 queue] that by fastforce
  show ?thesis
    using l r by (auto simp: host_changeVersion_def b split: sum.splits prod.splits)
qed

lemma call_events: "Success \<notin> set (call cb) \<and> Failure \<notin> set (call cb)"
  by (cases cb rule: call.cases) simp_all

lemma changeVersionWithSchema_loop_structure:
  "list_all (\<lambda>item. structure_of item \<noteq> []) items
   \<Longrightarrow> \<exists>logs. changeVersionWithSchema_loop dbg items q0
              = (logs, Inr (map (\<lambda>s. (s, [])) (structure_statements items)))"
proof (induction items arbitrary: q0)
  case Nil
  then show ?case by (simp add: structure_statements_def)
next
  case (Cons item items)
  from Cons.prems obtain s where s: "structure_of item = [s]"
    by (cases item rule: structure_of.cases) simp_all
  from Cons obtain logs where l:
    "changeVersionWithSchema_loop dbg items (Some s)
       = (logs, Inr (map (\<lambda>s. (s, [])) (structure_statements items)))"
    by fastforce
  show ?case using s l
    by (cases item rule: structure_of.cases) (simp_all add: structure_statements_def)
qed

lemma changeVersionWithSchema_accepted:
  assumes "db d" "version_ok h" "\<forall>n. statement_ok h n"
      and "list_all (\<lambda>item. structure_of item \<noteq> []) (as_array schema)"
  shows "Success \<in> set (trace (changeVersionWithSchema Enyo h d newVersion schema opts))"
proof -
  obtain b where a: "isArray Enyo schema = Inr b" using isArray_Enyo by blast
  obtain logs where l: "changeVersionWithSchema_loop (debug d) (as_array schema) None
      = (logs, Inr (map (\<lambda>s. (s, [])) (structure_statements (as_array schema))))"
    using changeVersionWithSchema_loop_structure [OF assms(4)] by blast
  have r: "run_statements h 0 (map (\<lambda>s. (s, [])) (structure_statements (as_array schema)))
        = (map (\<lambda>(s, vs). ExecuteSql s vs True)
             (map (\<lambda>s. (s, [])) (structure_statements (as_array schema))), True)"
    using assms(3) by (intro run_statements_all_ok) simp
  show ?thesis
    using assms(1,2)
    by (simp add: changeVersionWithSchema_def a l r host_changeVersion_def versionChanged_def
          Let_def)
qed

lemma changeVersionWithSchema_mismatch:
  assumes "db d" "\<not> version_ok h"
  shows "changeVersionWithSchema Enyo h d newVersion schema opts
           = \<lparr>thrown = None,
              trace = ChangeVersion (dbVersion d) newVersion # Failure
                      # call (onError (getOptions opts None)),
              handle = d\<rparr>"
proof -
  obtain b where a: "isArray Enyo schema = Inr b" using isArray_Enyo by blast
  show ?thesis
    using assms by (simp add: changeVersionWithSchema_def a host_changeVersion_def Let_def)
qed

text \<open>
  C5. \<^verbatim>\<open>changeVersionWithSchema\<close> changes the cached version only in the host's
  success callback: if the host has reported success, \<^verbatim>\<open>getVersion\<close> returns the new
  version; if it has not, and in particular if it has reported failure, the handle is
  as before. In the Enyo build, on a handle with a connection, the call returns and the
  host reports one or the other: success, and so the new version, when the host finds
  the expected version and accepts every statement of a schema whose entries all yield
  a statement; failure, and so the old version, when the host does not find the
  expected version. In the standalone build the call throws at its first line
  (\<^verbatim>\<open>_isArray\<close>) and changes nothing.
\<close>

theorem changeVersionWithSchema_on_success_only:
  "(Success \<in> set (trace (changeVersionWithSchema v h d newVersion schema opts))
      \<longrightarrow> getVersion (handle (changeVersionWithSchema v h d newVersion schema opts)) = newVersion)
   \<and> (Success \<notin> set (trace (changeVersionWithSchema v h d newVersion schema opts))
      \<longrightarrow> handle (changeVersionWithSchema v h d newVersion schema opts) = d)
   \<and> (Failure \<in> set (trace (changeVersionWithSchema v h d newVersion schema opts))
      \<longrightarrow> handle (changeVersionWithSchema v h d newVersion schema opts) = d)
   \<and> (db d \<longrightarrow>
        thrown (changeVersionWithSchema Enyo h d newVersion schema opts) = None
        \<and> (Success \<in> set (trace (changeVersionWithSchema Enyo h d newVersion schema opts))
           \<or> Failure \<in> set (trace (changeVersionWithSchema Enyo h d newVersion schema opts))))
   \<and> (db d \<and> version_ok h \<and> (\<forall>n. statement_ok h n)
        \<and> list_all (\<lambda>item. structure_of item \<noteq> []) (as_array schema) \<longrightarrow>
        getVersion (handle (changeVersionWithSchema Enyo h d newVersion schema opts)) = newVersion)
   \<and> (db d \<and> \<not> version_ok h \<longrightarrow>
        getVersion (handle (changeVersionWithSchema Enyo h d newVersion schema opts))
          = getVersion d)
   \<and> changeVersionWithSchema Standalone h d newVersion schema opts
       = \<lparr>thrown = Some (ReferenceError ''it''), trace = [], handle = d\<rparr>"
proof -
  let ?body = "changeVersionWithSchema_loop (debug d) (as_array schema) None"
  obtain evs committed where hc: "host_changeVersion h ?body = (evs, committed)"
    by (cases "host_changeVersion h ?body")
  have ev: "Success \<notin> set evs" "Failure \<notin> set evs"
    using host_changeVersion_events [of ?body h] changeVersionWithSchema_loop_logs hc by auto
  note cl = call_events [of "onSuccess (getOptions opts None)"] call_events [of "onError (getOptions opts None)"]
  have sa: "changeVersionWithSchema Standalone h d newVersion schema opts
       = \<lparr>thrown = Some (ReferenceError ''it''), trace = [], handle = d\<rparr>"
    by (simp add: changeVersionWithSchema_def)
  have en: "changeVersionWithSchema Enyo h d newVersion schema opts =
      (if \<not> db d then \<lparr>thrown = Some (TypeError ''changeVersion''), trace = [], handle = d\<rparr>
       else if committed
         then \<lparr>thrown = None,
               trace = ChangeVersion (dbVersion d) newVersion # evs @ Success
                       # call (onSuccess (getOptions opts None)),
               handle = d\<lparr>dbVersion := newVersion\<rparr>\<rparr>
         else \<lparr>thrown = None,
               trace = ChangeVersion (dbVersion d) newVersion # evs @ Failure
                       # call (onError (getOptions opts None)),
               handle = d\<rparr>)"
  proof -
    obtain b where "isArray Enyo schema = Inr b" using isArray_Enyo by blast
    then show ?thesis
      by (simp add: changeVersionWithSchema_def hc versionChanged_def Let_def)
  qed
  have main: "(Success \<in> set (trace (changeVersionWithSchema v h d newVersion schema opts))
      \<longrightarrow> getVersion (handle (changeVersionWithSchema v h d newVersion schema opts)) = newVersion)
   \<and> (Success \<notin> set (trace (changeVersionWithSchema v h d newVersion schema opts))
      \<longrightarrow> handle (changeVersionWithSchema v h d newVersion schema opts) = d)
   \<and> (Failure \<in> set (trace (changeVersionWithSchema v h d newVersion schema opts))
      \<longrightarrow> handle (changeVersionWithSchema v h d newVersion schema opts) = d)"
    using ev cl by (cases v) (auto simp: sa en getVersion_def)
  have one: "thrown (changeVersionWithSchema Enyo h d newVersion schema opts) = None
        \<and> (Success \<in> set (trace (changeVersionWithSchema Enyo h d newVersion schema opts))
           \<or> Failure \<in> set (trace (changeVersionWithSchema Enyo h d newVersion schema opts)))"
    if "db d"
    using that by (simp add: en)
  have live: "getVersion (handle (changeVersionWithSchema Enyo h d newVersion schema opts))
                = newVersion"
    if "db d" "version_ok h" "\<forall>n. statement_ok h n"
       "list_all (\<lambda>item. structure_of item \<noteq> []) (as_array schema)"
  proof -
    have "Success \<in> set (trace (changeVersionWithSchema Enyo h d newVersion schema opts))"
      using that by (rule changeVersionWithSchema_accepted)
    then show ?thesis using ev cl by (auto simp: en getVersion_def split: if_splits)
  qed
  have mismatch: "getVersion (handle (changeVersionWithSchema Enyo h d newVersion schema opts))
                    = getVersion d"
    if "db d" "\<not> version_ok h"
    using that by (simp add: changeVersionWithSchema_mismatch)
  show ?thesis
    using main one live mismatch sa by blast
qed

text \<open>C5, at a schema of one statement, with a host that accepts it and one that rejects it.\<close>

theorem changeVersionWithSchema_on_success_only_witness:
  "changeVersionWithSchema Enyo
      \<lparr>statement_ok = (\<lambda>n. True), version_ok = True, insertId = (\<lambda>n. None)\<rparr>
      \<lparr>db = True, dbVersion = Str ''1'', lastInsertRowId = Num 0, debug = False\<rparr>
      (Str ''2'') (Array [SqlItem ''ALTER TABLE t ADD COLUMN c TEXT''])
      \<lparr>onSuccess = Some (UserFunction ''done''), onError = Some (UserFunction ''failed''), values'' = None\<rparr>
    = \<lparr>thrown = None,
       trace = [ChangeVersion (Str ''1'') (Str ''2''),
                ExecuteSql ''ALTER TABLE t ADD COLUMN c TEXT'' [] True, Success, Call ''done''],
       handle = \<lparr>db = True, dbVersion = Str ''2'', lastInsertRowId = Num 0, debug = False\<rparr>\<rparr>
   \<and> getVersion (handle (changeVersionWithSchema Enyo
      \<lparr>statement_ok = (\<lambda>n. True), version_ok = True, insertId = (\<lambda>n. None)\<rparr>
      \<lparr>db = True, dbVersion = Str ''1'', lastInsertRowId = Num 0, debug = False\<rparr>
      (Str ''2'') (Array [SqlItem ''ALTER TABLE t ADD COLUMN c TEXT''])
      \<lparr>onSuccess = Some (UserFunction ''done''), onError = Some (UserFunction ''failed''), values'' = None\<rparr>))
     = Str ''2''
   \<and> changeVersionWithSchema Enyo
      \<lparr>statement_ok = (\<lambda>n. False), version_ok = True, insertId = (\<lambda>n. None)\<rparr>
      \<lparr>db = True, dbVersion = Str ''1'', lastInsertRowId = Num 0, debug = False\<rparr>
      (Str ''2'') (Array [SqlItem ''ALTER TABLE t ADD COLUMN c TEXT''])
      \<lparr>onSuccess = Some (UserFunction ''done''), onError = Some (UserFunction ''failed''), values'' = None\<rparr>
    = \<lparr>thrown = None,
       trace = [ChangeVersion (Str ''1'') (Str ''2''),
                ExecuteSql ''ALTER TABLE t ADD COLUMN c TEXT'' [] False, Failure, Call ''failed''],
       handle = \<lparr>db = True, dbVersion = Str ''1'', lastInsertRowId = Num 0, debug = False\<rparr>\<rparr>"
  using changeVersionWithSchema_on_success_only
    [of Enyo "\<lparr>statement_ok = (\<lambda>n. True), version_ok = True, insertId = (\<lambda>n. None)\<rparr>"
        "\<lparr>db = True, dbVersion = Str ''1'', lastInsertRowId = Num 0, debug = False\<rparr>"
        "Str ''2''" "Array [SqlItem ''ALTER TABLE t ADD COLUMN c TEXT'']"
        "\<lparr>onSuccess = Some (UserFunction ''done''), onError = Some (UserFunction ''failed''), values'' = None\<rparr>"]
  by (simp add: changeVersionWithSchema_def host_changeVersion_def versionChanged_def getOptions_def
        mixin_def getVersion_def Let_def)

end
